theory Spec2Isabelle
  imports Main "HOL-Library.Word" "HOL-Library.Sublist"
begin

section \<open>Events and their publishers\<close>

text \<open>
  The widgets and models of the toolkit notify their observers through event publishers.
  A handler is a Go closure; closures have an identity and a behaviour. The identity is a
  number here, and the behaviour is given by an environment that maps the identity to
  what running the closure does to the world it can reach (the struct that owns the
  publisher included, so a handler may attach and detach handlers while it runs).
\<close>

type_synonym EventHandler = nat

type_synonym IntEventHandler = nat

text \<open>
  Modelled from the spec: the type \<open>EventPublisher\<close> is declared in a file of the
  repository that is not among the sources. It owns an ordered collection of handlers,
  insertion order being invocation order.
\<close>

record EventPublisher =
  handlers :: "EventHandler list"

text \<open>
  Modelled from the spec: the type \<open>IntEventPublisher\<close>, the variant of
  \<open>EventPublisher\<close> whose handlers take one integer (a row or item index).
\<close>

record IntEventPublisher =
  intHandlers :: "IntEventHandler list"

text \<open>
  Modelled from the spec: \<open>Event.Attach\<close> appends the handler to the subscription
  list and does not look for duplicates.
\<close>

definition Event_Attach :: "EventHandler \<Rightarrow> EventPublisher \<Rightarrow> EventPublisher" where
  "Event_Attach handler p = p\<lparr>handlers := handlers p @ [handler]\<rparr>"

text \<open>
  Modelled from the spec: \<open>Event.Detach\<close> removes a previously attached handler, the
  first match, and does nothing when the handler is not subscribed.
\<close>

definition Event_Detach :: "EventHandler \<Rightarrow> EventPublisher \<Rightarrow> EventPublisher" where
  "Event_Detach handler p = p\<lparr>handlers := remove1 handler (handlers p)\<rparr>"

text \<open>Modelled from the spec: \<open>IntEvent.Attach\<close>, as \<open>Event.Attach\<close>.\<close>

definition IntEvent_Attach :: "IntEventHandler \<Rightarrow> IntEventPublisher \<Rightarrow> IntEventPublisher" where
  "IntEvent_Attach handler p = p\<lparr>intHandlers := intHandlers p @ [handler]\<rparr>"

text \<open>Modelled from the spec: \<open>IntEvent.Detach\<close>, as \<open>Event.Detach\<close>.\<close>

definition IntEvent_Detach :: "IntEventHandler \<Rightarrow> IntEventPublisher \<Rightarrow> IntEventPublisher" where
  "IntEvent_Detach handler p = p\<lparr>intHandlers := remove1 handler (intHandlers p)\<rparr>"

subsection \<open>Event handles\<close>

text \<open>
  Modelled from the spec: an \<open>Event\<close> is the handle through which observers subscribe,
  bound to exactly one publisher. A handle is a pointer into the struct that owns the
  publisher: what a client does through it (\<open>Attach\<close>, \<open>Detach\<close>) is done to that
  publisher in place. So a handle is the function that applies a change to the publisher
  inside the world \<open>'w\<close>.
\<close>

type_synonym 'w Event = "(EventPublisher \<Rightarrow> EventPublisher) \<Rightarrow> 'w \<Rightarrow> 'w"

type_synonym 'w IntEvent = "(IntEventPublisher \<Rightarrow> IntEventPublisher) \<Rightarrow> 'w \<Rightarrow> 'w"

text \<open>
  Modelled from the spec: \<open>EventPublisher.Event()\<close> returns the handle bound to the
  publisher it is called on; repeated calls return equivalent handles.
\<close>

definition EventPublisher_Event :: "'w Event \<Rightarrow> 'w Event" where
  "EventPublisher_Event p = p"

text \<open>Modelled from the spec: \<open>IntEventPublisher.Event()\<close>, likewise.\<close>

definition IntEventPublisher_Event :: "'w IntEvent \<Rightarrow> 'w IntEvent" where
  "IntEventPublisher_Event p = p"

subsection \<open>Executions and what they record\<close>

text \<open>
  An execution threads the world through the calls and records every \<open>Publish\<close> call:
  its payload, and for every handler it invokes, which handler that was and the world the
  handler was invoked in. A handler of an \<open>Event\<close> is a \<open>func()\<close> and a handler of an
  \<open>IntEvent\<close> is a \<open>func(int)\<close>, so the two kinds of invocation are kept apart.
  The trace holds the \<open>Publish\<close> calls of the code under study; what a handler calls
  in turn while it runs is part of what the handler does to the world.
\<close>

datatype call = Call EventHandler | CallInt IntEventHandler int

datatype 'w publication = Publication (payload: "int option") (calls: "(call \<times> 'w) list")

record 'w exec =
  world :: 'w
  trace :: "'w publication list"

text \<open>The handlers invoked by the most recent \<open>Publish\<close> call, in the order of their invocation.\<close>

definition invoked :: "'w exec \<Rightarrow> call list" where
  "invoked r = map fst (calls (last (trace r)))"

text \<open>The worlds these handlers were invoked in.\<close>

definition observed :: "'w exec \<Rightarrow> 'w list" where
  "observed r = map snd (calls (last (trace r)))"

text \<open>
  Modelled from the spec: the loop that \<open>EventPublisher.Publish\<close> and
  \<open>IntEventPublisher.Publish\<close> share. It iterates the subscriber list \<open>hs\<close> as it was
  when \<open>Publish\<close> was called (the snapshot), and invokes an entry when its handler is
  still subscribed at that moment (\<open>subs\<close> reads the subscriber list of the world the
  earlier handlers left). So a handler that an earlier handler of the same call has
  detached is not invoked, a handler attached during the call is not in the snapshot, and
  no other handler is skipped. \<open>mk\<close> says how the invocation is recorded and \<open>run\<close>
  what invoking the handler does.
\<close>

fun dispatch ::
  "('w \<Rightarrow> nat list) \<Rightarrow> (nat \<Rightarrow> call) \<Rightarrow> (nat \<Rightarrow> 'w \<Rightarrow> 'w) \<Rightarrow> nat list \<Rightarrow> 'w \<Rightarrow> (call \<times> 'w) list \<times> 'w" where
  "dispatch subs mk run [] w = ([], w)"
| "dispatch subs mk run (h # hs) w =
     (if h \<in> set (subs w)
      then (case dispatch subs mk run hs (run h w) of (cs, w') \<Rightarrow> ((mk h, w) # cs, w'))
      else dispatch subs mk run hs w)"

text \<open>
  Modelled from the spec: \<open>EventPublisher.Publish\<close> invokes every currently
  subscribed handler in attachment order, iterating a snapshot of the subscriber list
  taken at call time; a handler detached before its turn, also from within a handler
  running during the same call, is not invoked. The publisher is reached from the world
  through \<open>p\<close>.
\<close>

definition Publish :: "('w \<Rightarrow> EventPublisher) \<Rightarrow> (EventHandler \<Rightarrow> 'w \<Rightarrow> 'w) \<Rightarrow> 'w exec \<Rightarrow> 'w exec" where
  "Publish p env r =
     (case dispatch (\<lambda>w. handlers (p w)) Call env (handlers (p (world r))) (world r) of
        (cs, w') \<Rightarrow> \<lparr>world = w', trace = trace r @ [Publication None cs]\<rparr>)"

text \<open>
  Modelled from the spec: \<open>IntEventPublisher.Publish(value)\<close>, the same loop, which
  passes the payload to every handler it invokes.
\<close>

definition IntPublish ::
  "('w \<Rightarrow> IntEventPublisher) \<Rightarrow> (IntEventHandler \<Rightarrow> int \<Rightarrow> 'w \<Rightarrow> 'w) \<Rightarrow> int \<Rightarrow> 'w exec \<Rightarrow> 'w exec" where
  "IntPublish p ienv v r =
     (case dispatch (\<lambda>w. intHandlers (p w)) (\<lambda>h. CallInt h v) (\<lambda>h. ienv h v)
             (intHandlers (p (world r))) (world r) of
        (cs, w') \<Rightarrow> \<lparr>world = w', trace = trace r @ [Publication (Some v) cs]\<rparr>)"

section \<open>Models: \<open>models.go\<close>\<close>

text \<open>
  A Go \<open>error\<close> is a value; \<open>nil\<close> is \<open>None\<close>.
\<close>

datatype error = Error string

text \<open>
  A method with a pointer receiver works on the struct in the world. A struct that embeds
  a base struct is a record that extends the base record, so the world of a method of the
  base is any extension of its record.

  An accessor such as \<open>ItemsReset()\<close> returns the handle of a publisher of the
  struct, and \<open>lmb.ItemsReset().Attach(h)\<close> is \<open>ItemsReset (Event_Attach h) lmb\<close>.
\<close>

record ListModelBase =
  itemsResetPublisher :: EventPublisher
  itemChangedPublisher :: IntEventPublisher

definition ItemsReset :: "'m ListModelBase_scheme Event" where
  "ItemsReset = EventPublisher_Event itemsResetPublisher_update"

definition ItemChanged :: "'m ListModelBase_scheme IntEvent" where
  "ItemChanged = IntEventPublisher_Event itemChangedPublisher_update"

definition PublishItemsReset ::
  "(EventHandler \<Rightarrow> 'm ListModelBase_scheme \<Rightarrow> 'm ListModelBase_scheme) \<Rightarrow>
   'm ListModelBase_scheme exec \<Rightarrow> 'm ListModelBase_scheme exec" where
  "PublishItemsReset env r = Publish itemsResetPublisher env r"

definition PublishItemChanged ::
  "(IntEventHandler \<Rightarrow> int \<Rightarrow> 'm ListModelBase_scheme \<Rightarrow> 'm ListModelBase_scheme) \<Rightarrow> int \<Rightarrow>
   'm ListModelBase_scheme exec \<Rightarrow> 'm ListModelBase_scheme exec" where
  "PublishItemChanged ienv index r = IntPublish itemChangedPublisher ienv index r"

record TableModelBase =
  rowsResetPublisher :: EventPublisher
  rowChangedPublisher :: IntEventPublisher

definition RowsReset :: "'m TableModelBase_scheme Event" where
  "RowsReset = EventPublisher_Event rowsResetPublisher_update"

definition RowChanged :: "'m TableModelBase_scheme IntEvent" where
  "RowChanged = IntEventPublisher_Event rowChangedPublisher_update"

definition PublishRowsReset ::
  "(EventHandler \<Rightarrow> 'm TableModelBase_scheme \<Rightarrow> 'm TableModelBase_scheme) \<Rightarrow>
   'm TableModelBase_scheme exec \<Rightarrow> 'm TableModelBase_scheme exec" where
  "PublishRowsReset env r = Publish rowsResetPublisher env r"

definition PublishRowChanged ::
  "(IntEventHandler \<Rightarrow> int \<Rightarrow> 'm TableModelBase_scheme \<Rightarrow> 'm TableModelBase_scheme) \<Rightarrow> int \<Rightarrow>
   'm TableModelBase_scheme exec \<Rightarrow> 'm TableModelBase_scheme exec" where
  "PublishRowChanged ienv row r = IntPublish rowChangedPublisher ienv row r"

text \<open>
  \<open>type SortOrder int\<close>: every \<open>int\<close> is a \<open>SortOrder\<close>, and the two constants
  are 0 and 1 (\<open>iota\<close>). The columns and orders are stored and compared, never
  computed with, so Go's \<open>int\<close> is \<open>int\<close> here.
\<close>

type_synonym SortOrder = int

definition SortAscending :: SortOrder where
  "SortAscending = 0"

definition SortDescending :: SortOrder where
  "SortDescending = 1"

record SorterBase =
  changedPublisher :: EventPublisher
  col :: int
  order :: SortOrder

definition ColumnSortable :: "'m SorterBase_scheme \<Rightarrow> int \<Rightarrow> bool" where
  "ColumnSortable sb c = True"

text \<open>
  \<open>Sort\<close> assigns both fields, publishes the sort-changed event and returns \<open>nil\<close>.
\<close>

definition Sort ::
  "(EventHandler \<Rightarrow> 'm SorterBase_scheme \<Rightarrow> 'm SorterBase_scheme) \<Rightarrow> int \<Rightarrow> SortOrder \<Rightarrow>
   'm SorterBase_scheme exec \<Rightarrow> error option \<times> 'm SorterBase_scheme exec" where
  "Sort env c ord r =
     (None, Publish changedPublisher env (r\<lparr>world := (world r)\<lparr>col := c, order := ord\<rparr>\<rparr>))"

definition SortChanged :: "'m SorterBase_scheme Event" where
  "SortChanged = EventPublisher_Event changedPublisher_update"

definition SortedColumn :: "'m SorterBase_scheme \<Rightarrow> int" where
  "SortedColumn sb = col sb"

definition SortOrder :: "'m SorterBase_scheme \<Rightarrow> SortOrder" where
  "SortOrder sb = order sb"

section \<open>The native side of the widgets\<close>

text \<open>
  The widgets call code that is not part of the sources: the constants, \<open>HIWORD\<close> and
  \<open>SendMessage\<close> of the Win32 binding, the methods of \<open>WidgetBase\<close> and of
  \<open>LineEdit\<close>, the structs a message's \<open>lParam\<close> points to, the helpers
  \<open>parseFloat\<close> and \<open>formatFloat\<close>, \<open>strconv.Itoa\<close> and the arithmetic of
  \<open>float64\<close>. They are parameters of the model, collected in one record. A method of
  \<open>WidgetBase\<close> or of \<open>LineEdit\<close> works on its receiver, of the type \<open>'b\<close> or
  \<open>'e\<close>; \<open>'f\<close> stands for \<open>float64\<close> and \<open>'r\<close> for \<open>Rectangle\<close>.
  A \<open>uintptr\<close> has 64 bits.
\<close>

type_synonym uintptr = "64 word"

type_synonym HWND = uintptr

record ('b, 'e, 'f, 'r) platform =
  WM_COMMAND :: "32 word"
  WM_NOTIFY :: "32 word"
  WM_SIZE :: "32 word"
  WM_SIZING :: "32 word"
  BN_CLICKED :: "16 word"
  EN_CHANGE :: "16 word"
  UDN_DELTAPOS :: "32 word"
  UDM_SETBUDDY :: "32 word"
  HIWORD :: "32 word \<Rightarrow> 16 word"
  SendMessage :: "HWND \<Rightarrow> 32 word \<Rightarrow> uintptr \<Rightarrow> uintptr \<Rightarrow> 'b \<times> 'e \<Rightarrow> uintptr \<times> 'b \<times> 'e"
  NMHDR_Code :: "uintptr \<Rightarrow> 32 word"
  NMUPDOWN_IDelta :: "uintptr \<Rightarrow> 32 word"
  WidgetBase_WndProc :: "HWND \<Rightarrow> 32 word \<Rightarrow> uintptr \<Rightarrow> uintptr \<Rightarrow> 'b \<Rightarrow> uintptr \<times> 'b"
  WidgetBase_ClientBounds :: "'b \<Rightarrow> 'r"
  LineEdit_hWnd :: "'e \<Rightarrow> HWND"
  LineEdit_Text :: "'e \<Rightarrow> string"
  LineEdit_SetText :: "string \<Rightarrow> 'e \<Rightarrow> error option \<times> 'e"
  LineEdit_SetBounds :: "'r \<Rightarrow> 'e \<Rightarrow> error option \<times> 'e"
  NumberValidator_Decimals :: "'e \<Rightarrow> int"
  parseFloat :: "string \<Rightarrow> 'f \<times> error option"
  formatFloat :: "'f \<Rightarrow> int \<Rightarrow> string \<times> error option"
  Itoa :: "int \<Rightarrow> string"
  float64_to_int :: "'f \<Rightarrow> int"
  int32_to_float64 :: "32 word \<Rightarrow> 'f"
  float64_sub :: "'f \<Rightarrow> 'f \<Rightarrow> 'f"
  float64_mul :: "'f \<Rightarrow> 'f \<Rightarrow> 'f"
  float64_less :: "'f \<Rightarrow> 'f \<Rightarrow> bool"
  math_Abs :: "'f \<Rightarrow> 'f"
  SmallestNonzeroFloat64 :: 'f

section \<open>Button: \<open>button.go\<close>\<close>

record 'b Button =
  WidgetBase :: 'b
  clickedPublisher :: EventPublisher

definition Clicked :: "('b, 'm) Button_scheme Event" where
  "Clicked = EventPublisher_Event clickedPublisher_update"

definition raiseClicked ::
  "(EventHandler \<Rightarrow> ('b, 'm) Button_scheme \<Rightarrow> ('b, 'm) Button_scheme) \<Rightarrow>
   ('b, 'm) Button_scheme exec \<Rightarrow> ('b, 'm) Button_scheme exec" where
  "raiseClicked env r = Publish clickedPublisher env r"

text \<open>
  The two nested switches have one case each; every message goes on to the window
  procedure of \<open>WidgetBase\<close>, whose result is returned.
\<close>

definition Button_WndProc ::
  "('b, 'e, 'f, 'r) platform \<Rightarrow> (EventHandler \<Rightarrow> ('b, 'm) Button_scheme \<Rightarrow> ('b, 'm) Button_scheme) \<Rightarrow>
   HWND \<Rightarrow> 32 word \<Rightarrow> uintptr \<Rightarrow> uintptr \<Rightarrow>
   ('b, 'm) Button_scheme exec \<Rightarrow> uintptr \<times> ('b, 'm) Button_scheme exec" where
  "Button_WndProc pf env hwnd msg wParam lParam r =
     (let r1 =
        (if msg = WM_COMMAND pf then
           (if HIWORD pf (ucast wParam) = BN_CLICKED pf then raiseClicked env r else r)
         else r)
      in case WidgetBase_WndProc pf hwnd msg wParam lParam (Button.WidgetBase (world r1)) of
           (ret, b) \<Rightarrow> (ret, r1\<lparr>world := (world r1)\<lparr>Button.WidgetBase := b\<rparr>\<rparr>))"

section \<open>NumberEdit: \<open>numberedit.go\<close>\<close>

record ('b, 'e, 'f) NumberEdit =
  WidgetBase :: 'b
  edit :: 'e
  hWndUpDown :: HWND
  bindingMember :: string
  increment :: 'f
  oldValue :: 'f
  valueChangedPublisher :: EventPublisher

definition Decimals :: "('b, 'e, 'f, 'r) platform \<Rightarrow> ('b, 'e, 'f, 'm) NumberEdit_scheme \<Rightarrow> int" where
  "Decimals pf ne = NumberValidator_Decimals pf (edit ne)"

text \<open>\<open>Value\<close> keeps the number \<open>parseFloat\<close> returns and drops its error.\<close>

definition Value :: "('b, 'e, 'f, 'r) platform \<Rightarrow> ('b, 'e, 'f, 'm) NumberEdit_scheme \<Rightarrow> 'f" where
  "Value pf ne = fst (parseFloat pf (LineEdit_Text pf (edit ne)))"

definition SetValue ::
  "('b, 'e, 'f, 'r) platform \<Rightarrow> 'f \<Rightarrow> ('b, 'e, 'f, 'm) NumberEdit_scheme \<Rightarrow>
   error option \<times> ('b, 'e, 'f, 'm) NumberEdit_scheme" where
  "SetValue pf v ne =
     (let prec = Decimals pf ne;
          formatted =
            (if prec = 0 then (Itoa pf (float64_to_int pf v), None) else formatFloat pf v prec)
      in case formatted of
           (text, Some err) \<Rightarrow> (Some err, ne)
         | (text, None) \<Rightarrow>
             (case LineEdit_SetText pf text (edit ne) of (err, e) \<Rightarrow> (err, ne\<lparr>edit := e\<rparr>)))"

definition ValueChanged :: "('b, 'e, 'f, 'm) NumberEdit_scheme Event" where
  "ValueChanged = EventPublisher_Event valueChangedPublisher_update"

text \<open>
  The window procedure looks at a message only once the up-down control exists. The
  \<open>break\<close> of the \<open>EN_CHANGE\<close> case leaves the switch without touching \<open>oldValue\<close>
  and without publishing; the \<open>break\<close> of the size case skips \<open>SendMessage\<close>. Every
  message goes on to the window procedure of \<open>WidgetBase\<close>.
\<close>

definition NumberEdit_WndProc ::
  "('b, 'e, 'f, 'r) platform \<Rightarrow>
   (EventHandler \<Rightarrow> ('b, 'e, 'f, 'm) NumberEdit_scheme \<Rightarrow> ('b, 'e, 'f, 'm) NumberEdit_scheme) \<Rightarrow>
   HWND \<Rightarrow> 32 word \<Rightarrow> uintptr \<Rightarrow> uintptr \<Rightarrow>
   ('b, 'e, 'f, 'm) NumberEdit_scheme exec \<Rightarrow> uintptr \<times> ('b, 'e, 'f, 'm) NumberEdit_scheme exec" where
  "NumberEdit_WndProc pf env hwnd msg wParam lParam r =
     (let ne = world r;
          r1 =
        (if hWndUpDown ne \<noteq> 0 then
           (if msg = WM_COMMAND pf then
              (if HIWORD pf (ucast wParam) = EN_CHANGE pf then
                 (let v = Value pf ne in
                  if float64_less pf (math_Abs pf (float64_sub pf v (oldValue ne))) (SmallestNonzeroFloat64 pf)
                  then r
                  else Publish valueChangedPublisher env (r\<lparr>world := ne\<lparr>oldValue := v\<rparr>\<rparr>))
               else r)
            else if msg = WM_NOTIFY pf then
              (if NMHDR_Code pf lParam = UDN_DELTAPOS pf then
                 (let v = float64_sub pf (Value pf ne)
                            (float64_mul pf (int32_to_float64 pf (NMUPDOWN_IDelta pf lParam)) (increment ne))
                  in r\<lparr>world := snd (SetValue pf v ne)\<rparr>)
               else r)
            else if msg = WM_SIZE pf \<or> msg = WM_SIZING pf then
              (case LineEdit_SetBounds pf (WidgetBase_ClientBounds pf (NumberEdit.WidgetBase ne)) (edit ne) of
                 (Some err, e) \<Rightarrow> r\<lparr>world := ne\<lparr>edit := e\<rparr>\<rparr>
               | (None, e) \<Rightarrow>
                   (case SendMessage pf (hWndUpDown ne) (UDM_SETBUDDY pf) (LineEdit_hWnd pf e) 0
                           (NumberEdit.WidgetBase ne, e) of
                      (ret, b, e') \<Rightarrow> r\<lparr>world := ne\<lparr>NumberEdit.WidgetBase := b, edit := e'\<rparr>\<rparr>))
            else r)
         else r)
      in case WidgetBase_WndProc pf hwnd msg wParam lParam (NumberEdit.WidgetBase (world r1)) of
           (ret, b) \<Rightarrow> (ret, r1\<lparr>world := (world r1)\<lparr>NumberEdit.WidgetBase := b\<rparr>\<rparr>))"

text \<open>
  The guard of the \<open>EN_CHANGE\<close> case: the parsed value is not within the threshold of
  the last observed one.
\<close>

definition value_changes :: "('b, 'e, 'f, 'r) platform \<Rightarrow> ('b, 'e, 'f, 'm) NumberEdit_scheme \<Rightarrow> bool" where
  "value_changes pf ne =
     (\<not> float64_less pf (math_Abs pf (float64_sub pf (Value pf ne) (oldValue ne))) (SmallestNonzeroFloat64 pf))"


section \<open>Scenarios\<close>

subsection \<open>Sequences of calls on one publisher\<close>

text \<open>
  A client of one \<open>EventPublisher\<close> calls \<open>Attach\<close>, \<open>Detach\<close> and \<open>Publish\<close> in
  any order. The world is the publisher itself, which the handlers may change.
\<close>

datatype api_call = DoAttach EventHandler | DoDetach EventHandler | DoPublish

fun api_step :: "(EventHandler \<Rightarrow> EventPublisher \<Rightarrow> EventPublisher) \<Rightarrow> api_call \<Rightarrow> EventPublisher exec \<Rightarrow> EventPublisher exec" where
  "api_step env (DoAttach h) r = r\<lparr>world := Event_Attach h (world r)\<rparr>"
| "api_step env (DoDetach h) r = r\<lparr>world := Event_Detach h (world r)\<rparr>"
| "api_step env DoPublish r = Publish id env r"

definition run_calls :: "(EventHandler \<Rightarrow> EventPublisher \<Rightarrow> EventPublisher) \<Rightarrow> api_call list \<Rightarrow> EventPublisher exec \<Rightarrow> EventPublisher exec" where
  "run_calls env cs r = fold (api_step env) cs r"

text \<open>The same for one \<open>IntEventPublisher\<close>.\<close>

datatype int_api_call = DoIntAttach IntEventHandler | DoIntDetach IntEventHandler | DoIntPublish int

fun int_api_step ::
  "(IntEventHandler \<Rightarrow> int \<Rightarrow> IntEventPublisher \<Rightarrow> IntEventPublisher) \<Rightarrow> int_api_call \<Rightarrow>
   IntEventPublisher exec \<Rightarrow> IntEventPublisher exec" where
  "int_api_step ienv (DoIntAttach h) r = r\<lparr>world := IntEvent_Attach h (world r)\<rparr>"
| "int_api_step ienv (DoIntDetach h) r = r\<lparr>world := IntEvent_Detach h (world r)\<rparr>"
| "int_api_step ienv (DoIntPublish v) r = IntPublish id ienv v r"

definition run_int_calls ::
  "(IntEventHandler \<Rightarrow> int \<Rightarrow> IntEventPublisher \<Rightarrow> IntEventPublisher) \<Rightarrow> int_api_call list \<Rightarrow>
   IntEventPublisher exec \<Rightarrow> IntEventPublisher exec" where
  "run_int_calls ienv cs r = fold (int_api_step ienv) cs r"

text \<open>Publishers nobody has subscribed to yet, and nothing published.\<close>

definition fresh :: "EventPublisher exec" where
  "fresh = \<lparr>world = \<lparr>handlers = []\<rparr>, trace = []\<rparr>"

definition fresh_int :: "IntEventPublisher exec" where
  "fresh_int = \<lparr>world = \<lparr>intHandlers = []\<rparr>, trace = []\<rparr>"

text \<open>
  The handlers of a scenario: handler 1 detaches handler 2 when it runs, every other
  handler leaves the publisher alone.
\<close>

definition detaching_env :: "EventHandler \<Rightarrow> EventPublisher \<Rightarrow> EventPublisher" where
  "detaching_env h p = (if h = 1 then Event_Detach 2 p else p)"

definition detaching_int_env :: "IntEventHandler \<Rightarrow> int \<Rightarrow> IntEventPublisher \<Rightarrow> IntEventPublisher" where
  "detaching_int_env h v p = (if h = 1 then IntEvent_Detach 2 p else p)"

text \<open>Handlers that leave the world alone.\<close>

definition idle :: "EventHandler \<Rightarrow> 'w \<Rightarrow> 'w" where
  "idle h w = w"

definition idle_int :: "IntEventHandler \<Rightarrow> int \<Rightarrow> 'w \<Rightarrow> 'w" where
  "idle_int h v w = w"

subsection \<open>What a call publishes\<close>

text \<open>The publications an execution has recorded after the point \<open>r\<close>, up to \<open>r'\<close>.\<close>

definition publications_since :: "'w exec \<Rightarrow> 'w exec \<Rightarrow> 'w publication list" where
  "publications_since r r' = drop (length (trace r)) (trace r')"

subsection \<open>A model that records its notifications\<close>

text \<open>
  The round trip of the specification: a model that embeds \<open>ListModelBase\<close>, with one
  handler on each channel that writes what it is told into a log.
\<close>

datatype recorded = Changed int | Reset

record recorder_model = ListModelBase +
  events :: "recorded list"

definition new_recorder_model :: recorder_model where
  "new_recorder_model =
     \<lparr>itemsResetPublisher = \<lparr>handlers = []\<rparr>, itemChangedPublisher = \<lparr>intHandlers = []\<rparr>, events = []\<rparr>"

definition record_reset :: "EventHandler \<Rightarrow> recorder_model \<Rightarrow> recorder_model" where
  "record_reset h m = m\<lparr>events := events m @ [Reset]\<rparr>"

definition record_changed :: "IntEventHandler \<Rightarrow> int \<Rightarrow> recorder_model \<Rightarrow> recorder_model" where
  "record_changed h i m = m\<lparr>events := events m @ [Changed i]\<rparr>"

subsection \<open>Models with subscribers\<close>

text \<open>
  A list model that handlers 1 and 2 observe for resets and handler 3 for changes, and a
  table model that handler 4 observes for resets and handlers 5 and 6 for changes.
\<close>

definition list_model0 :: "ListModelBase exec" where
  "list_model0 =
     \<lparr>world = \<lparr>itemsResetPublisher = \<lparr>handlers = [1, 2]\<rparr>, itemChangedPublisher = \<lparr>intHandlers = [3]\<rparr>\<rparr>,
      trace = []\<rparr>"

definition table_model0 :: "TableModelBase exec" where
  "table_model0 =
     \<lparr>world = \<lparr>rowsResetPublisher = \<lparr>handlers = [4]\<rparr>, rowChangedPublisher = \<lparr>intHandlers = [5, 6]\<rparr>\<rparr>,
      trace = []\<rparr>"

subsection \<open>A sorter with two subscribers\<close>

text \<open>
  Handlers that subscribe one more handler to the sort-changed event each time they run,
  and a sorter, sorted by column 0 in ascending order, that handlers 1 and 2 observe.
\<close>

definition resubscribing :: "EventHandler \<Rightarrow> SorterBase \<Rightarrow> SorterBase" where
  "resubscribing h sb = SortChanged (Event_Attach (h + 10)) sb"

definition sorter0 :: "SorterBase exec" where
  "sorter0 = \<lparr>world = \<lparr>changedPublisher = \<lparr>handlers = [1, 2]\<rparr>, col = 0, order = SortAscending\<rparr>, trace = []\<rparr>"

subsection \<open>A number edit on a platform with float64 numbers\<close>

text \<open>
  A platform to run the widgets on. The constants have their Win32 values and the state of
  a \<open>LineEdit\<close> is its text. A finite \<open>float64\<close> is a whole multiple of
  \<open>2^-1074\<close>, the smallest positive \<open>float64\<close>, and is written as that multiple: the
  integer \<open>k\<close> stands for \<open>k * 2^-1074\<close>. So \<open>math.SmallestNonzeroFloat64\<close> is 1,
  the number 1 is \<open>2 ^ 1074\<close> and the \<open>float64\<close> nearest to \<open>1e-300\<close>, which is
  \<open>0x1.56e1fc2f8f359p-997\<close>, is 202402253307310623424512. Comparison and absolute
  value are exact; on the numbers of the scenarios below the difference is a
  \<open>float64\<close> and is exact as well. \<open>parseFloat\<close> knows the texts of the scenarios.
\<close>

definition float64_platform :: "(unit, string, int, unit) platform" where
  "float64_platform =
     \<lparr>WM_COMMAND = 0x111, WM_NOTIFY = 0x4E, WM_SIZE = 5, WM_SIZING = 0x214,
      BN_CLICKED = 0, EN_CHANGE = 0x300, UDN_DELTAPOS = 0xFFFFFD2E, UDM_SETBUDDY = 0x469,
      HIWORD = (\<lambda>dw. ucast (drop_bit 16 dw)),
      SendMessage = (\<lambda>h m w l s. (0, s)),
      NMHDR_Code = (\<lambda>p. 0),
      NMUPDOWN_IDelta = (\<lambda>p. 0),
      WidgetBase_WndProc = (\<lambda>h m w l b. (0, b)),
      WidgetBase_ClientBounds = (\<lambda>b. ()),
      LineEdit_hWnd = (\<lambda>e. 2),
      LineEdit_Text = (\<lambda>e. e),
      LineEdit_SetText = (\<lambda>t e. (None, t)),
      LineEdit_SetBounds = (\<lambda>b e. (None, e)),
      NumberValidator_Decimals = (\<lambda>e. 0),
      parseFloat = (\<lambda>s. if s = ''0'' then (0, None)
                          else if s = ''1'' then (2 ^ 1074, None)
                          else if s = ''1e-300'' then (202402253307310623424512, None)
                          else (0, Some (Error ''invalid syntax''))),
      formatFloat = (\<lambda>v p. (''0'', None)),
      Itoa = (\<lambda>i. ''0''),
      float64_to_int = (\<lambda>v. v div 2 ^ 1074),
      int32_to_float64 = (\<lambda>d. sint d * 2 ^ 1074),
      float64_sub = (\<lambda>a b. a - b),
      float64_mul = (\<lambda>a b. a * b div 2 ^ 1074),
      float64_less = (\<lambda>a b. a < b),
      math_Abs = abs,
      SmallestNonzeroFloat64 = 1\<rparr>"


text \<open>
  A number edit whose up-down control exists, whose last observed value is 0 and whose edit
  shows \<open>s\<close>; handlers 1 and 2 observe its value.
\<close>

definition number_edit :: "string \<Rightarrow> (unit, string, int) NumberEdit exec" where
  "number_edit s =
     \<lparr>world = \<lparr>WidgetBase = (), edit = s, hWndUpDown = 3, bindingMember = [], increment = 2 ^ 1074,
                oldValue = 0, valueChangedPublisher = \<lparr>handlers = [1, 2]\<rparr>\<rparr>,
      trace = []\<rparr>"

text \<open>A button that handlers 1 and 2 observe.\<close>

definition button0 :: "unit Button exec" where
  "button0 = \<lparr>world = \<lparr>Button.WidgetBase = (), clickedPublisher = \<lparr>handlers = [1, 2]\<rparr>\<rparr>, trace = []\<rparr>"

section \<open>Properties of the publishers\<close>

subsection \<open>The loop\<close>

text \<open>The handlers the loop invokes are entries of the snapshot, in the order of the snapshot.\<close>

lemma dispatch_subseq:
  "\<exists>ks. map fst (fst (dispatch subs mk run hs w)) = map mk ks \<and> subseq ks hs"
proof (induction hs arbitrary: w)
  case Nil
  then show ?case by simp
next
  case (Cons h hs)
  show ?case
  proof (cases "h \<in> set (subs w)")
    case True
    from Cons.IH [of "run h w"] obtain ks
      where "map fst (fst (dispatch subs mk run hs (run h w))) = map mk ks" and "subseq ks hs"
      by blast
    with True have "map fst (fst (dispatch subs mk run (h # hs) w)) = map mk (h # ks) \<and> subseq (h # ks) (h # hs)"
      by (simp add: case_prod_beta)
    then show ?thesis by blast
  next
    case False
    from Cons.IH [of w] obtain ks
      where "map fst (fst (dispatch subs mk run hs w)) = map mk ks" and "subseq ks hs"
      by blast
    with False have "map fst (fst (dispatch subs mk run (h # hs) w)) = map mk ks \<and> subseq ks (h # hs)"
      by (simp add: list_emb_Cons)
    then show ?thesis by blast
  qed
qed

lemma dispatch_length: "length (fst (dispatch subs mk run hs w)) \<le> length hs"
  by (induction hs arbitrary: w) (simp_all add: case_prod_beta le_SucI)

text \<open>
  Every handler the loop invokes is an entry of the snapshot and is subscribed in the world
  it is invoked in.
\<close>

lemma dispatch_sound:
  "\<forall>(c, w') \<in> set (fst (dispatch subs mk run hs w)). \<exists>h. c = mk h \<and> h \<in> set hs \<and> h \<in> set (subs w')"
proof (induction hs arbitrary: w)
  case Nil
  then show ?case by simp
next
  case (Cons h hs)
  show ?case
  proof (cases "h \<in> set (subs w)")
    case True
    with Cons.IH [of "run h w"] show ?thesis
      by (fastforce simp: case_prod_beta)
  next
    case False
    with Cons.IH [of w] show ?thesis
      by fastforce
  qed
qed

text \<open>
  A handler that no handler detaches is invoked once for each of its entries: the loop
  skips no handler but a detached one.
\<close>

lemma dispatch_count:
  assumes keep: "\<And>g w. h \<in> set (subs w) \<Longrightarrow> h \<in> set (subs (run g w))"
    and inj: "\<And>g. mk g = mk h \<Longrightarrow> g = h"
    and sub: "h \<in> set hs \<Longrightarrow> h \<in> set (subs w)"
  shows "count_list (map fst (fst (dispatch subs mk run hs w))) (mk h) = count_list hs h"
  using sub
proof (induction hs arbitrary: w)
  case Nil
  then show ?case by simp
next
  case (Cons g hs)
  show ?case
  proof (cases "g \<in> set (subs w)")
    case True
    have "h \<in> set hs \<Longrightarrow> h \<in> set (subs (run g w))"
      using Cons.prems keep by simp
    from Cons.IH [OF this] True inj show ?thesis
      by (auto simp: case_prod_beta)
  next
    case False
    with Cons.prems have "g \<noteq> h" by auto
    moreover have "h \<in> set hs \<Longrightarrow> h \<in> set (subs w)"
      using Cons.prems by simp
    from Cons.IH [OF this] False \<open>g \<noteq> h\<close> show ?thesis
      by simp
  qed
qed

text \<open>When no handler detaches a handler, the loop invokes the whole snapshot.\<close>

lemma dispatch_all:
  assumes keep: "\<And>g w. set (subs w) \<subseteq> set (subs (run g w))"
    and sub: "set hs \<subseteq> set (subs w)"
  shows "map fst (fst (dispatch subs mk run hs w)) = map mk hs"
  using sub
proof (induction hs arbitrary: w)
  case Nil
  then show ?case by simp
next
  case (Cons g hs)
  from Cons.prems keep [of w g] have "set hs \<subseteq> set (subs (run g w))" by auto
  from Cons.IH [OF this] Cons.prems show ?case
    by (simp add: case_prod_beta)
qed

text \<open>What no handler changes, the loop does not change.\<close>

lemma dispatch_frame:
  assumes "\<And>g w. f (run g w) = f w"
  shows "f (snd (dispatch subs mk run hs w)) = f w"
  using assms by (induction hs arbitrary: w) (simp_all add: case_prod_beta)

text \<open>
  A property that holds when the loop starts and that no handler destroys holds in every
  world a handler is invoked in.
\<close>

lemma dispatch_observed:
  assumes "P w" and "\<And>h w. P w \<Longrightarrow> P (run h w)"
  shows "\<forall>w' \<in> set (map snd (fst (dispatch subs mk run hs w))). P w'"
  using assms(1)
proof (induction hs arbitrary: w)
  case Nil
  then show ?case by simp
next
  case (Cons h hs)
  from Cons.prems have "P (run h w)" by (rule assms(2))
  from Cons.IH [OF this] Cons.IH [OF Cons.prems] Cons.prems show ?case
    by (simp add: case_prod_beta)
qed

text \<open>When the handlers only detach, the subscribers after the loop are among those before.\<close>

lemma dispatch_subs_subseq:
  assumes "\<And>g w. subseq (subs (run g w)) (subs w)"
  shows "subseq (subs (snd (dispatch subs mk run hs w))) (subs w)"
proof (induction hs arbitrary: w)
  case Nil
  then show ?case by simp
next
  case (Cons h hs)
  from Cons.IH [of "run h w"] assms [of h w]
  have "subseq (subs (snd (dispatch subs mk run hs (run h w)))) (subs w)"
    by (rule subseq_order.trans)
  with Cons.IH [of w] show ?case
    by (simp add: case_prod_beta)
qed

subsection \<open>One \<open>Publish\<close> call\<close>

lemma trace_Publish:
  "trace (Publish p env r) =
     trace r @ [Publication None (fst (dispatch (\<lambda>w. handlers (p w)) Call env (handlers (p (world r))) (world r)))]"
  by (simp add: Publish_def case_prod_beta)

lemma world_Publish:
  "world (Publish p env r) = snd (dispatch (\<lambda>w. handlers (p w)) Call env (handlers (p (world r))) (world r))"
  by (simp add: Publish_def case_prod_beta)

lemma trace_IntPublish:
  "trace (IntPublish p ienv v r) =
     trace r @ [Publication (Some v) (fst (dispatch (\<lambda>w. intHandlers (p w)) (\<lambda>h. CallInt h v) (\<lambda>h. ienv h v)
        (intHandlers (p (world r))) (world r)))]"
  by (simp add: IntPublish_def case_prod_beta)

lemma world_IntPublish:
  "world (IntPublish p ienv v r) =
     snd (dispatch (\<lambda>w. intHandlers (p w)) (\<lambda>h. CallInt h v) (\<lambda>h. ienv h v) (intHandlers (p (world r))) (world r))"
  by (simp add: IntPublish_def case_prod_beta)

lemma invoked_Publish_subseq:
  "\<exists>ks. invoked (Publish p env r) = map Call ks \<and> subseq ks (handlers (p (world r)))"
  using dispatch_subseq [of "\<lambda>w. handlers (p w)" Call env "handlers (p (world r))" "world r"]
  by (simp add: invoked_def trace_Publish)

lemma invoked_IntPublish_subseq:
  "\<exists>ks. invoked (IntPublish p ienv v r) = map (\<lambda>h. CallInt h v) ks \<and> subseq ks (intHandlers (p (world r)))"
  using dispatch_subseq [of "\<lambda>w. intHandlers (p w)" "\<lambda>h. CallInt h v" "\<lambda>h. ienv h v" "intHandlers (p (world r))" "world r"]
  by (simp add: invoked_def trace_IntPublish)

lemma subseq_invoked_Publish: "subseq (invoked (Publish p env r)) (map Call (handlers (p (world r))))"
  using invoked_Publish_subseq [of p env r] by (auto intro: subseq_map)

lemma subseq_invoked_IntPublish:
  "subseq (invoked (IntPublish p ienv v r)) (map (\<lambda>h. CallInt h v) (intHandlers (p (world r))))"
  using invoked_IntPublish_subseq [of p ienv v r] by (auto intro: subseq_map)

lemma calls_Publish_sound:
  "\<forall>(c, w) \<in> set (calls (last (trace (Publish p env r)))).
      \<exists>h. c = Call h \<and> h \<in> set (handlers (p (world r))) \<and> h \<in> set (handlers (p w))"
  using dispatch_sound [of "\<lambda>w. handlers (p w)" Call env "handlers (p (world r))" "world r"]
  by (simp add: trace_Publish)

lemma calls_IntPublish_sound:
  "\<forall>(c, w) \<in> set (calls (last (trace (IntPublish p ienv v r)))).
      \<exists>h. c = CallInt h v \<and> h \<in> set (intHandlers (p (world r))) \<and> h \<in> set (intHandlers (p w))"
  using dispatch_sound [of "\<lambda>w. intHandlers (p w)" "\<lambda>h. CallInt h v" "\<lambda>h. ienv h v" "intHandlers (p (world r))" "world r"]
  by (simp add: trace_IntPublish)

lemma count_invoked_Publish:
  assumes "\<And>g w. h \<in> set (handlers (p w)) \<Longrightarrow> h \<in> set (handlers (p (env g w)))"
  shows "count_list (invoked (Publish p env r)) (Call h) = count_list (handlers (p (world r))) h"
  using dispatch_count [of h "\<lambda>w. handlers (p w)" env Call "handlers (p (world r))" "world r"] assms
  by (simp add: invoked_def trace_Publish)

lemma count_invoked_IntPublish:
  assumes "\<And>g w. h \<in> set (intHandlers (p w)) \<Longrightarrow> h \<in> set (intHandlers (p (ienv g v w)))"
  shows "count_list (invoked (IntPublish p ienv v r)) (CallInt h v) = count_list (intHandlers (p (world r))) h"
  using dispatch_count [of h "\<lambda>w. intHandlers (p w)" "\<lambda>h. ienv h v" "\<lambda>h. CallInt h v" "intHandlers (p (world r))" "world r"] assms
  by (simp add: invoked_def trace_IntPublish)

lemma invoked_Publish_all:
  assumes "\<And>g w. set (handlers (p w)) \<subseteq> set (handlers (p (env g w)))"
  shows "invoked (Publish p env r) = map Call (handlers (p (world r)))"
  using dispatch_all [of "\<lambda>w. handlers (p w)" env "handlers (p (world r))" "world r" Call] assms
  by (simp add: invoked_def trace_Publish)

lemma invoked_IntPublish_all:
  assumes "\<And>g w. set (intHandlers (p w)) \<subseteq> set (intHandlers (p (ienv g v w)))"
  shows "invoked (IntPublish p ienv v r) = map (\<lambda>h. CallInt h v) (intHandlers (p (world r)))"
  using dispatch_all [of "\<lambda>w. intHandlers (p w)" "\<lambda>h. ienv h v" "intHandlers (p (world r))" "world r" "\<lambda>h. CallInt h v"] assms
  by (simp add: invoked_def trace_IntPublish)

text \<open>What no handler changes, a \<open>Publish\<close> call does not change.\<close>

lemma Publish_frame:
  assumes "\<And>g w. f (env g w) = f w"
  shows "f (world (Publish p env r)) = f (world r)"
  by (simp add: world_Publish dispatch_frame [where f = f and run = env, OF assms])

lemma IntPublish_frame:
  assumes "\<And>g w. f (ienv g v w) = f w"
  shows "f (world (IntPublish p ienv v r)) = f (world r)"
  using dispatch_frame [where f = f and run = "\<lambda>h. ienv h v"] assms
  by (simp add: world_IntPublish)

subsection \<open>Sequences of calls\<close>

lemma subseq_in_set: "subseq xs ys \<Longrightarrow> x \<in> set xs \<Longrightarrow> x \<in> set ys"
  by (induction rule: list_emb.induct) auto

lemma subseq_remove1: "subseq (remove1 x xs) xs"
  by (induction xs) (simp_all add: list_emb_Cons)

lemma remove1_map_Call: "map Call (remove1 h hs) = remove1 (Call h) (map Call hs)"
  by (induction hs) auto

lemma remove1_map_CallInt: "map (\<lambda>h. CallInt h v) (remove1 h hs) = remove1 (CallInt h v) (map (\<lambda>h. CallInt h v) hs)"
  by (induction hs) auto

lemma count_list_remove1_other: "g \<noteq> h \<Longrightarrow> count_list (remove1 g xs) h = count_list xs h"
  by (induction xs) auto

lemma count_list_map_Call: "count_list (map Call hs) (Call h) = count_list hs h"
  by (induction hs) auto

lemma run_calls_Nil: "run_calls env [] r = r"
  by (simp add: run_calls_def)

lemma run_calls_Cons: "run_calls env (c # cs) r = run_calls env cs (api_step env c r)"
  by (simp add: run_calls_def)

lemma run_int_calls_Nil: "run_int_calls ienv [] r = r"
  by (simp add: run_int_calls_def)

lemma run_int_calls_Cons: "run_int_calls ienv (c # cs) r = run_int_calls ienv cs (int_api_step ienv c r)"
  by (simp add: run_int_calls_def)

text \<open>
  The subscriber list is in attachment order: after any calls of the client, and with
  handlers that detach but do not attach, the subscribers are handlers that were subscribed
  before or that the client has attached, in the order in which that happened.
\<close>

lemma run_calls_attachment_order:
  assumes only_detach: "\<And>g q. subseq (handlers (env g q)) (handlers q)"
  shows "subseq (map DoAttach (handlers (world (run_calls env cs r))))
           (map DoAttach (handlers (world r)) @ cs)"
proof (induction cs arbitrary: r)
  case Nil
  then show ?case by (simp add: run_calls_Nil)
next
  case (Cons c cs)
  have step: "subseq (map DoAttach (handlers (world (api_step env c r))) @ cs)
                (map DoAttach (handlers (world r)) @ c # cs)"
  proof (cases c)
    case (DoAttach h)
    then show ?thesis by (simp add: Event_Attach_def)
  next
    case (DoDetach h)
    have "subseq (map DoAttach (remove1 h (handlers (world r)))) (map DoAttach (handlers (world r)))"
      by (intro subseq_map subseq_remove1)
    moreover have "subseq cs (c # cs)"
      by (simp add: list_emb_Cons)
    ultimately show ?thesis
      using DoDetach by (simp add: Event_Detach_def list_emb_append_mono)
  next
    case DoPublish
    have "subseq (handlers (world (Publish id env r))) (handlers (world r))"
      using dispatch_subs_subseq [of "\<lambda>w. handlers (id w)" env Call "handlers (world r)" "world r"]
        only_detach by (simp add: world_Publish)
    then have "subseq (map DoAttach (handlers (world (Publish id env r)))) (map DoAttach (handlers (world r)))"
      by (rule subseq_map)
    moreover have "subseq cs (c # cs)"
      by (simp add: list_emb_Cons)
    ultimately show ?thesis
      using DoPublish by (simp add: list_emb_append_mono)
  qed
  from Cons.IH [of "api_step env c r"] step show ?case
    unfolding run_calls_Cons by (rule subseq_order.trans)
qed

lemma run_int_calls_attachment_order:
  assumes only_detach: "\<And>g v q. subseq (intHandlers (ienv g v q)) (intHandlers q)"
  shows "subseq (map DoIntAttach (intHandlers (world (run_int_calls ienv cs r))))
           (map DoIntAttach (intHandlers (world r)) @ cs)"
proof (induction cs arbitrary: r)
  case Nil
  then show ?case by (simp add: run_int_calls_Nil)
next
  case (Cons c cs)
  have step: "subseq (map DoIntAttach (intHandlers (world (int_api_step ienv c r))) @ cs)
                (map DoIntAttach (intHandlers (world r)) @ c # cs)"
  proof (cases c)
    case (DoIntAttach h)
    then show ?thesis by (simp add: IntEvent_Attach_def)
  next
    case (DoIntDetach h)
    have "subseq (map DoIntAttach (remove1 h (intHandlers (world r)))) (map DoIntAttach (intHandlers (world r)))"
      by (intro subseq_map subseq_remove1)
    moreover have "subseq cs (c # cs)"
      by (simp add: list_emb_Cons)
    ultimately show ?thesis
      using DoIntDetach by (simp add: IntEvent_Detach_def list_emb_append_mono)
  next
    case (DoIntPublish v)
    have "subseq (intHandlers (world (IntPublish id ienv v r))) (intHandlers (world r))"
      using dispatch_subs_subseq [of "\<lambda>w. intHandlers (id w)" "\<lambda>h. ienv h v" "\<lambda>h. CallInt h v"
          "intHandlers (world r)" "world r"] only_detach
      by (simp add: world_IntPublish)
    then have "subseq (map DoIntAttach (intHandlers (world (IntPublish id ienv v r))))
        (map DoIntAttach (intHandlers (world r)))"
      by (rule subseq_map)
    moreover have "subseq cs (c # cs)"
      by (simp add: list_emb_Cons)
    ultimately show ?thesis
      using DoIntPublish by (simp add: list_emb_append_mono)
  qed
  from Cons.IH [of "int_api_step ienv c r"] step show ?case
    unfolding run_int_calls_Cons by (rule subseq_order.trans)
qed

text \<open>The handlers a \<open>Publish\<close> call invokes after such calls are in attachment order.\<close>

lemma invoked_attachment_order:
  assumes "\<And>g q. subseq (handlers (env g q)) (handlers q)"
  shows "\<exists>ks. invoked (Publish id env (run_calls env cs r)) = map Call ks
          \<and> subseq (map DoAttach ks) (map DoAttach (handlers (world r)) @ cs)"
proof -
  from invoked_Publish_subseq [of id env "run_calls env cs r"] obtain ks
    where ks: "invoked (Publish id env (run_calls env cs r)) = map Call ks"
      and sub: "subseq ks (handlers (world (run_calls env cs r)))"
    by auto
  from sub have "subseq (map DoAttach ks) (map DoAttach (handlers (world (run_calls env cs r))))"
    by (rule subseq_map)
  from this run_calls_attachment_order [of env cs r, OF assms]
  have "subseq (map DoAttach ks) (map DoAttach (handlers (world r)) @ cs)"
    by (rule subseq_order.trans)
  with ks show ?thesis by blast
qed

lemma invoked_int_attachment_order:
  assumes "\<And>g v q. subseq (intHandlers (ienv g v q)) (intHandlers q)"
  shows "\<exists>ks. invoked (IntPublish id ienv v (run_int_calls ienv cs r)) = map (\<lambda>h. CallInt h v) ks
          \<and> subseq (map DoIntAttach ks) (map DoIntAttach (intHandlers (world r)) @ cs)"
proof -
  from invoked_IntPublish_subseq [of id ienv v "run_int_calls ienv cs r"] obtain ks
    where ks: "invoked (IntPublish id ienv v (run_int_calls ienv cs r)) = map (\<lambda>h. CallInt h v) ks"
      and sub: "subseq ks (intHandlers (world (run_int_calls ienv cs r)))"
    by auto
  from sub have "subseq (map DoIntAttach ks) (map DoIntAttach (intHandlers (world (run_int_calls ienv cs r))))"
    by (rule subseq_map)
  from this run_int_calls_attachment_order [of ienv cs r, OF assms]
  have "subseq (map DoIntAttach ks) (map DoIntAttach (intHandlers (world r)) @ cs)"
    by (rule subseq_order.trans)
  with ks show ?thesis by blast
qed

text \<open>
  When no handler attaches or detaches \<open>h\<close> while it runs and the client never detaches
  \<open>h\<close>, the number of subscriptions of \<open>h\<close> grows by one with every \<open>Attach\<close> of it.
\<close>

lemma run_calls_count:
  assumes "\<And>g p. count_list (handlers (env g p)) h = count_list (handlers p) h"
    and "DoDetach h \<notin> set cs"
  shows "count_list (handlers (world (run_calls env cs r))) h =
         count_list (handlers (world r)) h + count_list cs (DoAttach h)"
  using assms(2)
proof (induction cs arbitrary: r)
  case Nil
  then show ?case by (simp add: run_calls_Nil)
next
  case (Cons c cs)
  have step: "count_list (handlers (world (api_step env c r))) h =
              count_list (handlers (world r)) h + (if c = DoAttach h then 1 else 0)"
  proof (cases c)
    case (DoAttach g)
    then show ?thesis by (auto simp: Event_Attach_def)
  next
    case (DoDetach g)
    with Cons.prems have "g \<noteq> h" by auto
    with DoDetach show ?thesis by (simp add: Event_Detach_def count_list_remove1_other)
  next
    case DoPublish
    then show ?thesis
      using Publish_frame [where f = "\<lambda>p. count_list (handlers p) h" and env = env and p = id and r = r]
        assms(1) by simp
  qed
  from Cons.prems have "DoDetach h \<notin> set cs" by simp
  from Cons.IH [OF this, of "api_step env c r"] step show ?case
    by (simp add: run_calls_Cons)
qed

text \<open>
  C1: for every state of an \<open>EventPublisher\<close> or \<open>IntEventPublisher\<close>, hence after any
  sequence of \<open>Attach\<close>, \<open>Detach\<close> and \<open>Publish\<close> calls, and whatever the handlers do
  while they run:
  every handler a \<open>Publish\<close> call invokes was subscribed when the call began and is
  subscribed at the moment it is invoked, so a handler detached before the call, or
  detached by another handler running during the call, is not invoked by it;
  the handlers are invoked in the order of the subscriber list;
  a handler that no running handler detaches is invoked once for each of its
  subscriptions (no other handler is skipped).
  The order of the subscriber list is the attachment order: after any calls \<open>cs\<close> of the
  client, with handlers that may detach, the handlers invoked are, in this order, handlers
  subscribed before \<open>cs\<close> or attached by \<open>Attach\<close> calls of \<open>cs\<close>; attaching a handler
  adds one invocation of it after all others, and detaching a handler removes its first
  invocation and leaves the others in place; a handler subscribed once and then detached is
  not invoked.
\<close>

theorem Publish_invokes_subscribed_handlers_in_attachment_order:
  "(\<forall>(c, w) \<in> set (calls (last (trace (Publish p env r)))).
       \<exists>h. c = Call h \<and> h \<in> set (handlers (p (world r))) \<and> h \<in> set (handlers (p w)))
   \<and> subseq (invoked (Publish p env r)) (map Call (handlers (p (world r))))
   \<and> ((\<forall>g w. h \<in> set (handlers (p w)) \<longrightarrow> h \<in> set (handlers (p (env g w)))) \<longrightarrow>
        count_list (invoked (Publish p env r)) (Call h) = count_list (handlers (p (world r))) h)
   \<and> ((\<forall>g q. subseq (handlers (denv g q)) (handlers q)) \<longrightarrow>
        (\<exists>ks. invoked (Publish id denv (run_calls denv cs pub)) = map Call ks
             \<and> subseq (map DoAttach ks) (map DoAttach (handlers (world pub)) @ cs)))
   \<and> ((\<forall>g q. set (handlers q) \<subseteq> set (handlers (aenv g q))) \<longrightarrow>
        invoked (Publish id aenv (api_step aenv (DoAttach h) pub)) = invoked (Publish id aenv pub) @ [Call h]
        \<and> invoked (Publish id aenv (api_step aenv (DoDetach h) pub)) = remove1 (Call h) (invoked (Publish id aenv pub)))
   \<and> (distinct (handlers (world pub)) \<longrightarrow>
        Call h \<notin> set (invoked (Publish id denv (api_step denv (DoDetach h) pub))))
   \<and> (\<forall>(c, w) \<in> set (calls (last (trace (IntPublish q ienv v ri)))).
       \<exists>h. c = CallInt h v \<and> h \<in> set (intHandlers (q (world ri))) \<and> h \<in> set (intHandlers (q w)))
   \<and> subseq (invoked (IntPublish q ienv v ri)) (map (\<lambda>h. CallInt h v) (intHandlers (q (world ri))))
   \<and> ((\<forall>g w. h \<in> set (intHandlers (q w)) \<longrightarrow> h \<in> set (intHandlers (q (ienv g v w)))) \<longrightarrow>
        count_list (invoked (IntPublish q ienv v ri)) (CallInt h v) = count_list (intHandlers (q (world ri))) h)
   \<and> ((\<forall>g u q. subseq (intHandlers (dienv g u q)) (intHandlers q)) \<longrightarrow>
        (\<exists>ks. invoked (IntPublish id dienv v (run_int_calls dienv ics ipub)) = map (\<lambda>h. CallInt h v) ks
             \<and> subseq (map DoIntAttach ks) (map DoIntAttach (intHandlers (world ipub)) @ ics)))
   \<and> ((\<forall>g q. set (intHandlers q) \<subseteq> set (intHandlers (aienv g v q))) \<longrightarrow>
        invoked (IntPublish id aienv v (int_api_step aienv (DoIntAttach h) ipub)) =
          invoked (IntPublish id aienv v ipub) @ [CallInt h v]
        \<and> invoked (IntPublish id aienv v (int_api_step aienv (DoIntDetach h) ipub)) =
          remove1 (CallInt h v) (invoked (IntPublish id aienv v ipub)))
   \<and> (distinct (intHandlers (world ipub)) \<longrightarrow>
        CallInt h v \<notin> set (invoked (IntPublish id dienv v (int_api_step dienv (DoIntDetach h) ipub))))"
proof -
  have e3: "(\<forall>g w. h \<in> set (handlers (p w)) \<longrightarrow> h \<in> set (handlers (p (env g w)))) \<longrightarrow>
        count_list (invoked (Publish p env r)) (Call h) = count_list (handlers (p (world r))) h"
    using count_invoked_Publish [of h p env r] by blast
  have e4: "(\<forall>g q. subseq (handlers (denv g q)) (handlers q)) \<longrightarrow>
        (\<exists>ks. invoked (Publish id denv (run_calls denv cs pub)) = map Call ks
             \<and> subseq (map DoAttach ks) (map DoAttach (handlers (world pub)) @ cs))"
    using invoked_attachment_order [of denv cs pub] by blast
  have e5: "(\<forall>g q. set (handlers q) \<subseteq> set (handlers (aenv g q))) \<longrightarrow>
        invoked (Publish id aenv (api_step aenv (DoAttach h) pub)) = invoked (Publish id aenv pub) @ [Call h]
        \<and> invoked (Publish id aenv (api_step aenv (DoDetach h) pub)) = remove1 (Call h) (invoked (Publish id aenv pub))"
  proof
    assume "\<forall>g q. set (handlers q) \<subseteq> set (handlers (aenv g q))"
    then have all: "invoked (Publish id aenv x) = map Call (handlers (world x))" for x
      using invoked_Publish_all [of id aenv x] by simp
    show "invoked (Publish id aenv (api_step aenv (DoAttach h) pub)) = invoked (Publish id aenv pub) @ [Call h]
        \<and> invoked (Publish id aenv (api_step aenv (DoDetach h) pub)) = remove1 (Call h) (invoked (Publish id aenv pub))"
      by (simp add: all Event_Attach_def Event_Detach_def remove1_map_Call)
  qed
  have e6: "distinct (handlers (world pub)) \<longrightarrow>
        Call h \<notin> set (invoked (Publish id denv (api_step denv (DoDetach h) pub)))"
  proof
    assume "distinct (handlers (world pub))"
    then have "h \<notin> set (handlers (world (api_step denv (DoDetach h) pub)))"
      by (simp add: Event_Detach_def)
    moreover have "Call h \<in> set (map Call ks) \<Longrightarrow> h \<in> set ks" for ks
      by auto
    ultimately show "Call h \<notin> set (invoked (Publish id denv (api_step denv (DoDetach h) pub)))"
      using invoked_Publish_subseq [of id denv "api_step denv (DoDetach h) pub"] subseq_in_set [of _ _ h]
      by (metis id_apply)
  qed
  have i3: "(\<forall>g w. h \<in> set (intHandlers (q w)) \<longrightarrow> h \<in> set (intHandlers (q (ienv g v w)))) \<longrightarrow>
        count_list (invoked (IntPublish q ienv v ri)) (CallInt h v) = count_list (intHandlers (q (world ri))) h"
    using count_invoked_IntPublish [of h q ienv v ri] by blast
  have i4: "(\<forall>g u q. subseq (intHandlers (dienv g u q)) (intHandlers q)) \<longrightarrow>
        (\<exists>ks. invoked (IntPublish id dienv v (run_int_calls dienv ics ipub)) = map (\<lambda>h. CallInt h v) ks
             \<and> subseq (map DoIntAttach ks) (map DoIntAttach (intHandlers (world ipub)) @ ics))"
    using invoked_int_attachment_order [of dienv v ics ipub] by blast
  have i5: "(\<forall>g q. set (intHandlers q) \<subseteq> set (intHandlers (aienv g v q))) \<longrightarrow>
        invoked (IntPublish id aienv v (int_api_step aienv (DoIntAttach h) ipub)) =
          invoked (IntPublish id aienv v ipub) @ [CallInt h v]
        \<and> invoked (IntPublish id aienv v (int_api_step aienv (DoIntDetach h) ipub)) =
          remove1 (CallInt h v) (invoked (IntPublish id aienv v ipub))"
  proof
    assume "\<forall>g q. set (intHandlers q) \<subseteq> set (intHandlers (aienv g v q))"
    then have all: "invoked (IntPublish id aienv v x) = map (\<lambda>h. CallInt h v) (intHandlers (world x))" for x
      using invoked_IntPublish_all [of id aienv v x] by simp
    show "invoked (IntPublish id aienv v (int_api_step aienv (DoIntAttach h) ipub)) =
          invoked (IntPublish id aienv v ipub) @ [CallInt h v]
        \<and> invoked (IntPublish id aienv v (int_api_step aienv (DoIntDetach h) ipub)) =
          remove1 (CallInt h v) (invoked (IntPublish id aienv v ipub))"
      by (simp add: all IntEvent_Attach_def IntEvent_Detach_def remove1_map_CallInt)
  qed
  have i6: "distinct (intHandlers (world ipub)) \<longrightarrow>
        CallInt h v \<notin> set (invoked (IntPublish id dienv v (int_api_step dienv (DoIntDetach h) ipub)))"
  proof
    assume "distinct (intHandlers (world ipub))"
    then have "h \<notin> set (intHandlers (world (int_api_step dienv (DoIntDetach h) ipub)))"
      by (simp add: IntEvent_Detach_def)
    moreover have "CallInt h v \<in> set (map (\<lambda>h. CallInt h v) ks) \<Longrightarrow> h \<in> set ks" for ks
      by auto
    ultimately show "CallInt h v \<notin> set (invoked (IntPublish id dienv v (int_api_step dienv (DoIntDetach h) ipub)))"
      using invoked_IntPublish_subseq [of id dienv v "int_api_step dienv (DoIntDetach h) ipub"] subseq_in_set [of _ _ h]
      by (metis id_apply)
  qed
  from calls_Publish_sound [of p env r] subseq_invoked_Publish [of p env r] e3 e4 e5 e6
    calls_IntPublish_sound [of q ienv v ri] subseq_invoked_IntPublish [of q ienv v ri] i3 i4 i5 i6
  show ?thesis
    by (intro conjI)
qed

theorem Publish_invokes_subscribed_handlers_in_attachment_order_witness:
  "invoked (run_calls detaching_env [DoAttach 1, DoAttach 2, DoAttach 3, DoPublish] fresh) = [Call 1, Call 3]
   \<and> observed (run_calls detaching_env [DoAttach 1, DoAttach 2, DoAttach 3, DoPublish] fresh) =
       [\<lparr>handlers = [1, 2, 3]\<rparr>, \<lparr>handlers = [1, 3]\<rparr>]
   \<and> count_list (invoked (Publish id detaching_env (run_calls detaching_env [DoAttach 1, DoAttach 2, DoAttach 3] fresh)))
        (Call 3) = 1
   \<and> subseq [DoAttach 1, DoAttach 3] [DoAttach 1, DoAttach 2, DoAttach 3]
   \<and> invoked (Publish id idle (api_step idle (DoAttach 4) (run_calls idle [DoAttach 1, DoAttach 2, DoAttach 3] fresh))) =
       [Call 1, Call 2, Call 3, Call 4]
   \<and> invoked (Publish id idle (api_step idle (DoDetach 2) (run_calls idle [DoAttach 1, DoAttach 2, DoAttach 3] fresh))) =
       [Call 1, Call 3]
   \<and> Call 2 \<notin> set (invoked (Publish id detaching_env
        (api_step detaching_env (DoDetach 2) (run_calls detaching_env [DoAttach 1, DoAttach 2, DoAttach 3] fresh))))
   \<and> invoked (run_int_calls detaching_int_env [DoIntAttach 1, DoIntAttach 2, DoIntAttach 3, DoIntPublish 7] fresh_int) =
       [CallInt 1 7, CallInt 3 7]
   \<and> count_list (invoked (IntPublish id detaching_int_env 7
        (run_int_calls detaching_int_env [DoIntAttach 1, DoIntAttach 2, DoIntAttach 3] fresh_int))) (CallInt 3 7) = 1
   \<and> invoked (IntPublish id idle_int 7 (int_api_step idle_int (DoIntAttach 4)
        (run_int_calls idle_int [DoIntAttach 1, DoIntAttach 2, DoIntAttach 3] fresh_int))) =
       [CallInt 1 7, CallInt 2 7, CallInt 3 7, CallInt 4 7]
   \<and> invoked (IntPublish id idle_int 7 (int_api_step idle_int (DoIntDetach 2)
        (run_int_calls idle_int [DoIntAttach 1, DoIntAttach 2, DoIntAttach 3] fresh_int))) =
       [CallInt 1 7, CallInt 3 7]"
proof -
  let ?cs = "[DoAttach 1, DoAttach 2, DoAttach 3]"
  let ?ics = "[DoIntAttach 1, DoIntAttach 2, DoIntAttach 3]"
  have run: "run_calls e ?cs fresh = \<lparr>world = \<lparr>handlers = [1, 2, 3]\<rparr>, trace = []\<rparr>" for e
    by (simp add: run_calls_def fresh_def Event_Attach_def)
  have irun: "run_int_calls e ?ics fresh_int = \<lparr>world = \<lparr>intHandlers = [1, 2, 3]\<rparr>, trace = []\<rparr>" for e
    by (simp add: run_int_calls_def fresh_int_def IntEvent_Attach_def)
  have keep3: "\<forall>g w. 3 \<in> set (handlers (id w)) \<longrightarrow> 3 \<in> set (handlers (id (detaching_env g w)))"
    by (simp add: detaching_env_def Event_Detach_def in_set_remove1)
  have ikeep3: "\<forall>g w. 3 \<in> set (intHandlers (id w)) \<longrightarrow> 3 \<in> set (intHandlers (id (detaching_int_env g 7 w)))"
    by (simp add: detaching_int_env_def IntEvent_Detach_def in_set_remove1)
  have det: "\<forall>g q. subseq (handlers (detaching_env g q)) (handlers q)"
    by (simp add: detaching_env_def Event_Detach_def subseq_remove1)
  have idet: "\<forall>g u q. subseq (intHandlers (detaching_int_env g u q)) (intHandlers q)"
    by (simp add: detaching_int_env_def IntEvent_Detach_def subseq_remove1)
  have nodet: "\<forall>g q. set (handlers q) \<subseteq> set (handlers (idle g q))"
    by (simp add: idle_def)
  have inodet: "\<forall>g q. set (intHandlers q) \<subseteq> set (intHandlers (idle_int g 7 q))"
    by (simp add: idle_int_def)
  have dist: "distinct (handlers (world (run_calls detaching_env ?cs fresh)))"
    "distinct (intHandlers (world (run_int_calls detaching_int_env ?ics fresh_int)))"
    unfolding run irun by simp_all
  note a = Publish_invokes_subscribed_handlers_in_attachment_order
    [where p = id and env = detaching_env and r = "run_calls detaching_env ?cs fresh" and h = 3
      and denv = detaching_env and cs = "[DoPublish]" and pub = "run_calls detaching_env ?cs fresh"
      and aenv = idle and q = id and ienv = detaching_int_env and v = 7
      and ri = "run_int_calls detaching_int_env ?ics fresh_int" and dienv = detaching_int_env
      and ics = "[DoIntPublish 7]" and ipub = "run_int_calls detaching_int_env ?ics fresh_int"
      and aienv = idle_int]
  note b = Publish_invokes_subscribed_handlers_in_attachment_order
    [where p = id and env = idle and r = "run_calls idle ?cs fresh" and h = 4
      and denv = idle and cs = "[]" and pub = "run_calls idle ?cs fresh"
      and aenv = idle and q = id and ienv = idle_int and v = 7
      and ri = "run_int_calls idle_int ?ics fresh_int" and dienv = idle_int
      and ics = "[]" and ipub = "run_int_calls idle_int ?ics fresh_int"
      and aienv = idle_int]
  note c = Publish_invokes_subscribed_handlers_in_attachment_order
    [where p = id and env = idle and r = "run_calls idle ?cs fresh" and h = 2
      and denv = detaching_env and cs = "[]" and pub = "run_calls idle ?cs fresh"
      and aenv = idle and q = id and ienv = idle_int and v = 7
      and ri = "run_int_calls idle_int ?ics fresh_int" and dienv = detaching_int_env
      and ics = "[]" and ipub = "run_int_calls idle_int ?ics fresh_int"
      and aienv = idle_int]
  from a keep3 have c3: "count_list (invoked (Publish id detaching_env (run_calls detaching_env ?cs fresh))) (Call 3) =
      count_list (handlers (id (world (run_calls detaching_env ?cs fresh)))) 3"
    by blast
  from a ikeep3 have ic3: "count_list (invoked (IntPublish id detaching_int_env 7
        (run_int_calls detaching_int_env ?ics fresh_int))) (CallInt 3 7) =
      count_list (intHandlers (id (world (run_int_calls detaching_int_env ?ics fresh_int)))) 3"
    by blast
  from b nodet have att: "invoked (Publish id idle (api_step idle (DoAttach 4) (run_calls idle ?cs fresh))) =
      invoked (Publish id idle (run_calls idle ?cs fresh)) @ [Call 4]"
    by blast
  from b inodet have iatt: "invoked (IntPublish id idle_int 7 (int_api_step idle_int (DoIntAttach 4)
        (run_int_calls idle_int ?ics fresh_int))) =
      invoked (IntPublish id idle_int 7 (run_int_calls idle_int ?ics fresh_int)) @ [CallInt 4 7]"
    by blast
  from c nodet have dt: "invoked (Publish id idle (api_step idle (DoDetach 2) (run_calls idle ?cs fresh))) =
      remove1 (Call 2) (invoked (Publish id idle (run_calls idle ?cs fresh)))"
    by blast
  from c inodet have idt: "invoked (IntPublish id idle_int 7 (int_api_step idle_int (DoIntDetach 2)
        (run_int_calls idle_int ?ics fresh_int))) =
      remove1 (CallInt 2 7) (invoked (IntPublish id idle_int 7 (run_int_calls idle_int ?ics fresh_int)))"
    by blast
  from a dist have gone: "Call 2 \<notin> set (invoked (Publish id detaching_env
        (api_step detaching_env (DoDetach 2) (run_calls detaching_env ?cs fresh))))"
    using Publish_invokes_subscribed_handlers_in_attachment_order
      [where denv = detaching_env and h = 2 and pub = "run_calls detaching_env ?cs fresh"]
    by blast
  have ev: "invoked (Publish id idle \<lparr>world = \<lparr>handlers = [1, 2, 3]\<rparr>, trace = []\<rparr>) = [Call 1, Call 2, Call 3]"
    "invoked (IntPublish id idle_int 7 \<lparr>world = \<lparr>intHandlers = [1, 2, 3]\<rparr>, trace = []\<rparr>) =
       [CallInt 1 7, CallInt 2 7, CallInt 3 7]"
    by (simp_all add: invoked_def Publish_def IntPublish_def idle_def idle_int_def)
  have ex: "invoked (run_calls detaching_env [DoAttach 1, DoAttach 2, DoAttach 3, DoPublish] fresh) = [Call 1, Call 3]"
    "observed (run_calls detaching_env [DoAttach 1, DoAttach 2, DoAttach 3, DoPublish] fresh) =
       [\<lparr>handlers = [1, 2, 3]\<rparr>, \<lparr>handlers = [1, 3]\<rparr>]"
    "invoked (run_int_calls detaching_int_env [DoIntAttach 1, DoIntAttach 2, DoIntAttach 3, DoIntPublish 7] fresh_int) =
       [CallInt 1 7, CallInt 3 7]"
    by (simp_all add: run_calls_def run_int_calls_def fresh_def fresh_int_def Event_Attach_def Event_Detach_def
        IntEvent_Attach_def IntEvent_Detach_def Publish_def IntPublish_def invoked_def observed_def
        detaching_env_def detaching_int_env_def)
  from c3 ic3 att iatt dt idt gone ev ex show ?thesis
    unfolding run irun by simp
qed

text \<open>
  C5: a handler attached twice to an \<open>EventPublisher\<close> and never detached, by the client
  or by a running handler, is invoked exactly twice by every later \<open>Publish\<close> call. The
  calls \<open>cs\<close> are any calls of the client that attach \<open>h\<close> twice and never detach it;
  they may hold earlier \<open>Publish\<close> calls and calls on other handlers.
\<close>

theorem attached_twice_is_invoked_twice:
  assumes "\<forall>g p. count_list (handlers (env g p)) h = count_list (handlers p) h"
    and "h \<notin> set (handlers (world r))"
    and "count_list cs (DoAttach h) = 2"
    and "DoDetach h \<notin> set cs"
  shows "count_list (invoked (Publish id env (run_calls env cs r))) (Call h) = 2"
proof -
  from assms(1) have fr: "\<And>g p. count_list (handlers (env g p)) h = count_list (handlers p) h"
    by blast
  from assms(2) have "count_list (handlers (world r)) h = 0" by simp
  with run_calls_count [of env h cs r, OF fr assms(4)] assms(3)
  have two: "count_list (handlers (world (run_calls env cs r))) h = 2" by simp
  have "h \<in> set (handlers (id w)) \<Longrightarrow> h \<in> set (handlers (id (env g w)))" for g w
    using fr [of g w] count_list_0_iff [of "handlers w" h] count_list_0_iff [of "handlers (env g w)" h]
    by simp
  from count_invoked_Publish [of h id env "run_calls env cs r", OF this] two show ?thesis
    by simp
qed

theorem attached_twice_is_invoked_twice_witness:
  "(\<forall>g p. count_list (handlers (detaching_env g p)) 3 = count_list (handlers p) 3)
   \<and> 3 \<notin> set (handlers (world fresh))
   \<and> count_list [DoAttach 3, DoAttach 2, DoPublish, DoAttach 3, DoDetach 2, DoAttach 1] (DoAttach 3) = 2
   \<and> DoDetach 3 \<notin> set [DoAttach 3, DoAttach 2, DoPublish, DoAttach 3, DoDetach 2, DoAttach 1]
   \<and> count_list (invoked (Publish id detaching_env
        (run_calls detaching_env [DoAttach 3, DoAttach 2, DoPublish, DoAttach 3, DoDetach 2, DoAttach 1] fresh)))
        (Call 3) = 2"
proof -
  have h1: "\<forall>g p. count_list (handlers (detaching_env g p)) 3 = count_list (handlers p) 3"
    by (simp add: detaching_env_def Event_Detach_def count_list_remove1_other)
  have h2: "3 \<notin> set (handlers (world fresh))"
    by (simp add: fresh_def)
  have h3: "count_list [DoAttach 3, DoAttach 2, DoPublish, DoAttach 3, DoDetach 2, DoAttach 1] (DoAttach 3) = 2"
    by simp
  have h4: "DoDetach 3 \<notin> set [DoAttach 3, DoAttach 2, DoPublish, DoAttach 3, DoDetach 2, DoAttach 1]"
    by simp
  from attached_twice_is_invoked_twice [OF h1 h2 h3 h4] h1 h2 h3 h4 show ?thesis
    by blast
qed

section \<open>Properties of the models\<close>

lemma publications_since_Publish:
  "publications_since r (Publish p env r) =
     [Publication None (fst (dispatch (\<lambda>w. handlers (p w)) Call env (handlers (p (world r))) (world r)))]"
  by (simp add: publications_since_def trace_Publish)

lemma publications_since_IntPublish:
  "publications_since r (IntPublish p ienv v r) =
     [Publication (Some v) (fst (dispatch (\<lambda>w. intHandlers (p w)) (\<lambda>h. CallInt h v) (\<lambda>h. ienv h v)
        (intHandlers (p (world r))) (world r)))]"
  by (simp add: publications_since_def trace_IntPublish)

lemma observed_Publish:
  "observed (Publish p env r) =
     map snd (fst (dispatch (\<lambda>w. handlers (p w)) Call env (handlers (p (world r))) (world r)))"
  by (simp add: observed_def trace_Publish)

lemma length_observed: "length (observed r) = length (invoked r)"
  by (simp add: observed_def invoked_def)

lemma Sort_world_frame:
  assumes "\<And>h w. f (env h w) = f w"
  shows "f (world (snd (Sort env c ord r))) = f ((world r)\<lparr>col := c, order := ord\<rparr>)"
  using Publish_frame [where f = f and env = env and p = changedPublisher
      and r = "r\<lparr>world := (world r)\<lparr>col := c, order := ord\<rparr>\<rparr>"] assms
  by (simp add: Sort_def)

lemma Sort_trace:
  "\<exists>cs. trace (snd (Sort env c ord r)) = trace r @ [Publication None cs]"
  by (simp add: Sort_def trace_Publish)

text \<open>Whom \<open>Sort\<close> notifies: the subscribers of the sort-changed event.\<close>

lemma Sort_invoked_subseq:
  "subseq (invoked (snd (Sort env c ord r))) (map Call (handlers (changedPublisher (world r))))"
  using subseq_invoked_Publish [of changedPublisher env "r\<lparr>world := (world r)\<lparr>col := c, order := ord\<rparr>\<rparr>"]
  by (simp add: Sort_def)

lemma Sort_invoked_count:
  assumes "\<And>g w. h \<in> set (handlers (changedPublisher w)) \<Longrightarrow> h \<in> set (handlers (changedPublisher (env g w)))"
  shows "count_list (invoked (snd (Sort env c ord r))) (Call h) = count_list (handlers (changedPublisher (world r))) h"
  using count_invoked_Publish [of h changedPublisher env "r\<lparr>world := (world r)\<lparr>col := c, order := ord\<rparr>\<rparr>"] assms
  by (simp add: Sort_def)

lemma Sort_invoked_all:
  assumes "\<And>g w. set (handlers (changedPublisher w)) \<subseteq> set (handlers (changedPublisher (env g w)))"
  shows "invoked (snd (Sort env c ord r)) = map Call (handlers (changedPublisher (world r)))"
  using invoked_Publish_all [of changedPublisher env "r\<lparr>world := (world r)\<lparr>col := c, order := ord\<rparr>\<rparr>"] assms
  by (simp add: Sort_def)

text \<open>
  C2: whatever the sorter's state, \<open>Sort(col, order)\<close> returns \<open>nil\<close>, leaves
  \<open>SortedColumn()\<close> equal to \<open>col\<close> and publishes the sort-changed event exactly once,
  to the subscribers of that event: the handlers invoked are subscribers, in their order,
  a subscriber that no running handler detaches is invoked once for each of its
  subscriptions, and when no running handler detaches a handler all subscribers are
  invoked. So do \<open>Sort(-1, order)\<close> and \<open>Sort(2, SortDescending)\<close>, after which
  \<open>SortOrder()\<close> is \<open>SortDescending\<close>. The handlers are any handlers that do not sort
  the model again themselves while the event is published.
\<close>

theorem Sort_sets_column_and_publishes_once:
  assumes "\<forall>h w. col (env h w) = col w \<and> order (env h w) = order w"
  shows "fst (Sort env c ord r) = None
    \<and> SortedColumn (world (snd (Sort env c ord r))) = c
    \<and> (\<exists>cs. trace (snd (Sort env c ord r)) = trace r @ [Publication None cs])
    \<and> subseq (invoked (snd (Sort env c ord r))) (map Call (handlers (changedPublisher (world r))))
    \<and> ((\<forall>g w. h \<in> set (handlers (changedPublisher w)) \<longrightarrow> h \<in> set (handlers (changedPublisher (env g w)))) \<longrightarrow>
         count_list (invoked (snd (Sort env c ord r))) (Call h) = count_list (handlers (changedPublisher (world r))) h)
    \<and> ((\<forall>g w. set (handlers (changedPublisher w)) \<subseteq> set (handlers (changedPublisher (env g w)))) \<longrightarrow>
         invoked (snd (Sort env c ord r)) = map Call (handlers (changedPublisher (world r))))
    \<and> SortedColumn (world (snd (Sort env (- 1) ord r))) = - 1
    \<and> (\<exists>cs. trace (snd (Sort env (- 1) ord r)) = trace r @ [Publication None cs])
    \<and> SortedColumn (world (snd (Sort env 2 SortDescending r))) = 2
    \<and> SortOrder (world (snd (Sort env 2 SortDescending r))) = SortDescending
    \<and> (\<exists>cs. trace (snd (Sort env 2 SortDescending r)) = trace r @ [Publication None cs])"
proof -
  from assms have c: "\<And>h w. col (env h w) = col w" and o: "\<And>h w. order (env h w) = order w"
    by simp_all
  have nil: "fst (Sort env c ord r) = None"
    by (simp add: Sort_def)
  have column: "SortedColumn (world (snd (Sort env c' ord' r))) = c'" for c' ord'
    using Sort_world_frame [where f = col and env = env, OF c] by (simp add: SortedColumn_def)
  have ordered: "SortOrder (world (snd (Sort env c' ord' r))) = ord'" for c' ord'
    using Sort_world_frame [where f = order and env = env, OF o] by (simp add: SortOrder_def)
  have count: "(\<forall>g w. h \<in> set (handlers (changedPublisher w)) \<longrightarrow> h \<in> set (handlers (changedPublisher (env g w)))) \<longrightarrow>
         count_list (invoked (snd (Sort env c ord r))) (Call h) = count_list (handlers (changedPublisher (world r))) h"
    using Sort_invoked_count [of h env c ord r] by blast
  have all: "(\<forall>g w. set (handlers (changedPublisher w)) \<subseteq> set (handlers (changedPublisher (env g w)))) \<longrightarrow>
         invoked (snd (Sort env c ord r)) = map Call (handlers (changedPublisher (world r)))"
    using Sort_invoked_all [of env c ord r] by blast
  from nil column [of c ord] Sort_trace [of env c ord r] Sort_invoked_subseq [of env c ord r] count all
    column [of "- 1" ord] Sort_trace [of env "- 1" ord r]
    column [of 2 SortDescending] ordered [of 2 SortDescending] Sort_trace [of env 2 SortDescending r]
  show ?thesis
    by (intro conjI)
qed

theorem Sort_sets_column_and_publishes_once_witness:
  "(\<forall>h w. col (resubscribing h w) = col w \<and> order (resubscribing h w) = order w)
   \<and> fst (Sort resubscribing 2 SortDescending sorter0) = None
   \<and> SortedColumn (world (snd (Sort resubscribing 2 SortDescending sorter0))) = 2
   \<and> SortOrder (world (snd (Sort resubscribing 2 SortDescending sorter0))) = SortDescending
   \<and> SortedColumn (world (snd (Sort resubscribing (- 1) SortDescending sorter0))) = - 1
   \<and> length (trace (snd (Sort resubscribing 2 SortDescending sorter0))) = 1
   \<and> invoked (snd (Sort resubscribing 2 SortDescending sorter0)) = [Call 1, Call 2]
   \<and> count_list (invoked (snd (Sort resubscribing 2 SortDescending sorter0))) (Call 2) = 1"
proof -
  have h: "\<forall>h w. col (resubscribing h w) = col w \<and> order (resubscribing h w) = order w"
    by (simp add: resubscribing_def SortChanged_def EventPublisher_Event_def)
  have keep: "\<forall>g w. set (handlers (changedPublisher w)) \<subseteq> set (handlers (changedPublisher (resubscribing g w)))"
    by (auto simp: resubscribing_def SortChanged_def EventPublisher_Event_def Event_Attach_def)
  then have keep2: "\<forall>g w. 2 \<in> set (handlers (changedPublisher w)) \<longrightarrow>
      2 \<in> set (handlers (changedPublisher (resubscribing g w)))"
    by blast
  note s = Sort_sets_column_and_publishes_once [OF h, of 2 SortDescending sorter0 2]
  from s keep have i: "invoked (snd (Sort resubscribing 2 SortDescending sorter0)) =
      map Call (handlers (changedPublisher (world sorter0)))"
    by blast
  from s keep2 have n: "count_list (invoked (snd (Sort resubscribing 2 SortDescending sorter0))) (Call 2) =
      count_list (handlers (changedPublisher (world sorter0))) 2"
    by blast
  from s obtain cs where "trace (snd (Sort resubscribing 2 SortDescending sorter0)) = trace sorter0 @ [Publication None cs]"
    by blast
  then have "length (trace (snd (Sort resubscribing 2 SortDescending sorter0))) = 1"
    by (simp add: sorter0_def)
  with s h i n show ?thesis
    by (simp add: sorter0_def)
qed

text \<open>
  C3: \<open>PublishItemsReset\<close> and \<open>PublishRowsReset\<close> publish once, without a payload,
  and invoke handlers attached to the reset channel only, in their order (all of them when
  no running handler detaches a handler), and no handler of the changed channel (no
  \<open>func(int)\<close> is called); \<open>PublishItemChanged(i)\<close> and \<open>PublishRowChanged(i)\<close>
  publish \<open>i\<close> once and invoke handlers attached to the changed channel only, in their
  order (all of them when no running handler detaches a handler), and no handler of the
  reset channel (no \<open>func()\<close> is called).
\<close>

theorem reset_and_changed_channels_are_separate:
  "subseq (invoked (PublishItemsReset env r)) (map Call (handlers (itemsResetPublisher (world r))))
   \<and> ((\<forall>g w. set (handlers (itemsResetPublisher w)) \<subseteq> set (handlers (itemsResetPublisher (env g w)))) \<longrightarrow>
        invoked (PublishItemsReset env r) = map Call (handlers (itemsResetPublisher (world r))))
   \<and> map payload (publications_since r (PublishItemsReset env r)) = [None]
   \<and> CallInt g v \<notin> set (invoked (PublishItemsReset env r))
   \<and> subseq (invoked (PublishItemChanged ienv i r)) (map (\<lambda>h. CallInt h i) (intHandlers (itemChangedPublisher (world r))))
   \<and> ((\<forall>g w. set (intHandlers (itemChangedPublisher w)) \<subseteq> set (intHandlers (itemChangedPublisher (ienv g i w)))) \<longrightarrow>
        invoked (PublishItemChanged ienv i r) = map (\<lambda>h. CallInt h i) (intHandlers (itemChangedPublisher (world r))))
   \<and> map payload (publications_since r (PublishItemChanged ienv i r)) = [Some i]
   \<and> Call g \<notin> set (invoked (PublishItemChanged ienv i r))
   \<and> subseq (invoked (PublishRowsReset tenv t)) (map Call (handlers (rowsResetPublisher (world t))))
   \<and> ((\<forall>g w. set (handlers (rowsResetPublisher w)) \<subseteq> set (handlers (rowsResetPublisher (tenv g w)))) \<longrightarrow>
        invoked (PublishRowsReset tenv t) = map Call (handlers (rowsResetPublisher (world t))))
   \<and> map payload (publications_since t (PublishRowsReset tenv t)) = [None]
   \<and> CallInt g v \<notin> set (invoked (PublishRowsReset tenv t))
   \<and> subseq (invoked (PublishRowChanged tienv i t)) (map (\<lambda>h. CallInt h i) (intHandlers (rowChangedPublisher (world t))))
   \<and> ((\<forall>g w. set (intHandlers (rowChangedPublisher w)) \<subseteq> set (intHandlers (rowChangedPublisher (tienv g i w)))) \<longrightarrow>
        invoked (PublishRowChanged tienv i t) = map (\<lambda>h. CallInt h i) (intHandlers (rowChangedPublisher (world t))))
   \<and> map payload (publications_since t (PublishRowChanged tienv i t)) = [Some i]
   \<and> Call g \<notin> set (invoked (PublishRowChanged tienv i t))"
proof -
  have apart: "subseq xs (map Call hs) \<Longrightarrow> CallInt g v \<notin> set xs"
    "subseq xs (map (\<lambda>h. CallInt h i) hs) \<Longrightarrow> Call g \<notin> set xs" for xs hs
    using subseq_in_set [of xs "map Call hs" "CallInt g v"]
      subseq_in_set [of xs "map (\<lambda>h. CallInt h i) hs" "Call g"]
    by auto
  have l1: "subseq (invoked (PublishItemsReset env r)) (map Call (handlers (itemsResetPublisher (world r))))"
    by (simp add: PublishItemsReset_def subseq_invoked_Publish)
  have l2: "(\<forall>g w. set (handlers (itemsResetPublisher w)) \<subseteq> set (handlers (itemsResetPublisher (env g w)))) \<longrightarrow>
        invoked (PublishItemsReset env r) = map Call (handlers (itemsResetPublisher (world r)))"
    using invoked_Publish_all [of itemsResetPublisher env r] by (simp add: PublishItemsReset_def)
  have l3: "subseq (invoked (PublishItemChanged ienv i r)) (map (\<lambda>h. CallInt h i) (intHandlers (itemChangedPublisher (world r))))"
    by (simp add: PublishItemChanged_def subseq_invoked_IntPublish)
  have l4: "(\<forall>g w. set (intHandlers (itemChangedPublisher w)) \<subseteq> set (intHandlers (itemChangedPublisher (ienv g i w)))) \<longrightarrow>
        invoked (PublishItemChanged ienv i r) = map (\<lambda>h. CallInt h i) (intHandlers (itemChangedPublisher (world r)))"
    using invoked_IntPublish_all [of itemChangedPublisher ienv i r] by (simp add: PublishItemChanged_def)
  have t1: "subseq (invoked (PublishRowsReset tenv t)) (map Call (handlers (rowsResetPublisher (world t))))"
    by (simp add: PublishRowsReset_def subseq_invoked_Publish)
  have t2: "(\<forall>g w. set (handlers (rowsResetPublisher w)) \<subseteq> set (handlers (rowsResetPublisher (tenv g w)))) \<longrightarrow>
        invoked (PublishRowsReset tenv t) = map Call (handlers (rowsResetPublisher (world t)))"
    using invoked_Publish_all [of rowsResetPublisher tenv t] by (simp add: PublishRowsReset_def)
  have t3: "subseq (invoked (PublishRowChanged tienv i t)) (map (\<lambda>h. CallInt h i) (intHandlers (rowChangedPublisher (world t))))"
    by (simp add: PublishRowChanged_def subseq_invoked_IntPublish)
  have t4: "(\<forall>g w. set (intHandlers (rowChangedPublisher w)) \<subseteq> set (intHandlers (rowChangedPublisher (tienv g i w)))) \<longrightarrow>
        invoked (PublishRowChanged tienv i t) = map (\<lambda>h. CallInt h i) (intHandlers (rowChangedPublisher (world t)))"
    using invoked_IntPublish_all [of rowChangedPublisher tienv i t] by (simp add: PublishRowChanged_def)
  have once: "map payload (publications_since r (PublishItemsReset env r)) = [None]"
    "map payload (publications_since r (PublishItemChanged ienv i r)) = [Some i]"
    "map payload (publications_since t (PublishRowsReset tenv t)) = [None]"
    "map payload (publications_since t (PublishRowChanged tienv i t)) = [Some i]"
    by (simp_all add: PublishItemsReset_def PublishItemChanged_def PublishRowsReset_def
        PublishRowChanged_def publications_since_Publish publications_since_IntPublish)
  from l1 l2 once(1) apart(1) [OF l1] l3 l4 once(2) apart(2) [OF l3]
    t1 t2 once(3) apart(1) [OF t1] t3 t4 once(4) apart(2) [OF t3]
  show ?thesis
    by (intro conjI)
qed

theorem reset_and_changed_channels_are_separate_witness:
  "invoked (PublishItemsReset idle list_model0) = [Call 1, Call 2]
   \<and> invoked (PublishItemChanged idle_int 5 list_model0) = [CallInt 3 5]
   \<and> invoked (PublishRowsReset idle table_model0) = [Call 4]
   \<and> invoked (PublishRowChanged idle_int 6 table_model0) = [CallInt 5 6, CallInt 6 6]"
proof -
  have k: "\<forall>g w. set (handlers (itemsResetPublisher w)) \<subseteq> set (handlers (itemsResetPublisher (idle g w :: ListModelBase)))"
    "\<forall>g w. set (intHandlers (itemChangedPublisher w)) \<subseteq> set (intHandlers (itemChangedPublisher (idle_int g 5 w :: ListModelBase)))"
    "\<forall>g w. set (handlers (rowsResetPublisher w)) \<subseteq> set (handlers (rowsResetPublisher (idle g w :: TableModelBase)))"
    "\<forall>g w. set (intHandlers (rowChangedPublisher w)) \<subseteq> set (intHandlers (rowChangedPublisher (idle_int g 6 w :: TableModelBase)))"
    by (simp_all add: idle_def idle_int_def)
  note a = reset_and_changed_channels_are_separate
    [where env = idle and r = list_model0 and ienv = idle_int and i = 5
      and tenv = idle and t = table_model0 and tienv = idle_int]
  note b = reset_and_changed_channels_are_separate
    [where env = idle and r = list_model0 and ienv = idle_int and i = 6
      and tenv = idle and t = table_model0 and tienv = idle_int]
  from a k(1) have "invoked (PublishItemsReset idle list_model0) = map Call (handlers (itemsResetPublisher (world list_model0)))"
    by blast
  moreover from a k(2) have "invoked (PublishItemChanged idle_int 5 list_model0) =
      map (\<lambda>h. CallInt h 5) (intHandlers (itemChangedPublisher (world list_model0)))"
    by blast
  moreover from a k(3) have "invoked (PublishRowsReset idle table_model0) = map Call (handlers (rowsResetPublisher (world table_model0)))"
    by blast
  moreover from b k(4) have "invoked (PublishRowChanged idle_int 6 table_model0) =
      map (\<lambda>h. CallInt h 6) (intHandlers (rowChangedPublisher (world table_model0)))"
    by blast
  ultimately show ?thesis
    by (simp add: list_model0_def table_model0_def)
qed

text \<open>
  C4: \<open>Sort(col, order)\<close> stores \<open>col\<close> and \<open>order\<close> before it publishes: in the
  world each handler is invoked in, \<open>SortedColumn()\<close> is \<open>col\<close> and \<open>SortOrder()\<close> is
  \<open>order\<close>, whatever they were before the call. The handlers invoked are subscribers of
  the sort-changed event, in their order, and all of them when no running handler detaches
  a handler. The handlers are any handlers that do not sort the model again themselves.
\<close>

theorem Sort_handlers_observe_new_state:
  assumes "\<forall>h w. col (env h w) = col w \<and> order (env h w) = order w"
  shows "(\<forall>w \<in> set (observed (snd (Sort env c ord r))). SortedColumn w = c \<and> SortOrder w = ord)
     \<and> subseq (invoked (snd (Sort env c ord r))) (map Call (handlers (changedPublisher (world r))))
     \<and> ((\<forall>g w. set (handlers (changedPublisher w)) \<subseteq> set (handlers (changedPublisher (env g w)))) \<longrightarrow>
          invoked (snd (Sort env c ord r)) = map Call (handlers (changedPublisher (world r)))
          \<and> length (observed (snd (Sort env c ord r))) = length (handlers (changedPublisher (world r))))"
proof -
  let ?P = "\<lambda>w. col w = c \<and> order w = ord"
  let ?w = "(world r)\<lparr>col := c, order := ord\<rparr>"
  have "?P ?w" by simp
  moreover have "\<And>h w. ?P w \<Longrightarrow> ?P (env h w)" using assms by simp
  ultimately have "\<forall>w' \<in> set (map snd (fst (dispatch (\<lambda>w. handlers (changedPublisher w)) Call env
      (handlers (changedPublisher ?w)) ?w))). ?P w'"
    by (rule dispatch_observed)
  then have seen: "\<forall>w \<in> set (observed (snd (Sort env c ord r))). SortedColumn w = c \<and> SortOrder w = ord"
    by (simp add: Sort_def observed_Publish SortedColumn_def SortOrder_def)
  have all: "(\<forall>g w. set (handlers (changedPublisher w)) \<subseteq> set (handlers (changedPublisher (env g w)))) \<longrightarrow>
          invoked (snd (Sort env c ord r)) = map Call (handlers (changedPublisher (world r)))
          \<and> length (observed (snd (Sort env c ord r))) = length (handlers (changedPublisher (world r)))"
    using Sort_invoked_all [of env c ord r] by (auto simp: length_observed)
  from seen Sort_invoked_subseq [of env c ord r] all show ?thesis
    by (intro conjI)
qed

theorem Sort_handlers_observe_new_state_witness:
  "(\<forall>h w. col (resubscribing h w) = col w \<and> order (resubscribing h w) = order w)
   \<and> map SortedColumn (observed (snd (Sort resubscribing 2 SortDescending sorter0))) = [2, 2]
   \<and> map SortOrder (observed (snd (Sort resubscribing 2 SortDescending sorter0))) = [SortDescending, SortDescending]
   \<and> invoked (snd (Sort resubscribing 2 SortDescending sorter0)) = [Call 1, Call 2]"
proof -
  have h: "\<forall>h w. col (resubscribing h w) = col w \<and> order (resubscribing h w) = order w"
    by (simp add: resubscribing_def SortChanged_def EventPublisher_Event_def)
  have keep: "\<forall>g w. set (handlers (changedPublisher w)) \<subseteq> set (handlers (changedPublisher (resubscribing g w)))"
    by (auto simp: resubscribing_def SortChanged_def EventPublisher_Event_def Event_Attach_def)
  note s = Sort_handlers_observe_new_state [OF h, of 2 SortDescending sorter0]
  from s keep have i: "invoked (snd (Sort resubscribing 2 SortDescending sorter0)) =
      map Call (handlers (changedPublisher (world sorter0)))"
    and "length (observed (snd (Sort resubscribing 2 SortDescending sorter0))) =
      length (handlers (changedPublisher (world sorter0)))"
    by blast+
  then have "length (observed (snd (Sort resubscribing 2 SortDescending sorter0))) = 2"
    by (simp add: sorter0_def)
  then obtain w1 w2 where ws: "observed (snd (Sort resubscribing 2 SortDescending sorter0)) = [w1, w2]"
    by (auto simp: length_Suc_conv numeral_2_eq_2)
  with s h i show ?thesis
    by (simp add: sorter0_def)
qed

text \<open>
  C6: a fresh model base with one recording handler on the item-changed channel and one
  on the items-reset channel; \<open>PublishItemChanged(5)\<close> and then \<open>PublishItemsReset()\<close>
  leave exactly the log \<open>[Changed 5, Reset]\<close>.
\<close>

theorem recorded_round_trip:
  "events (world (PublishItemsReset record_reset (PublishItemChanged record_changed 5
      \<lparr>world = ItemsReset (Event_Attach hr) (ItemChanged (IntEvent_Attach hc) new_recorder_model),
       trace = []\<rparr>))) = [Changed 5, Reset]"
  by (simp add: PublishItemsReset_def PublishItemChanged_def Publish_def IntPublish_def
      ItemsReset_def ItemChanged_def EventPublisher_Event_def IntEventPublisher_Event_def
      Event_Attach_def IntEvent_Attach_def new_recorder_model_def record_reset_def record_changed_def)

text \<open>
  C9: after \<open>Sort(-1, o)\<close> the sorter is unsorted and \<open>SortOrder()\<close> returns \<open>o\<close>:
  the order is stored for column -1 as for any other column. The handlers are any handlers
  that do not sort the model again themselves.
\<close>

theorem Sort_unsorted_keeps_order:
  assumes "\<forall>h w. order (env h w) = order w"
  shows "SortOrder (world (snd (Sort env (- 1) ord r))) = ord"
proof -
  from assms have "\<And>h w. order (env h w) = order w" by simp
  from Sort_world_frame [where f = order and env = env, OF this] show ?thesis
    by (simp add: SortOrder_def)
qed

theorem Sort_unsorted_keeps_order_witness:
  "(\<forall>h w. order (resubscribing h w) = order w)
   \<and> SortOrder (world (snd (Sort resubscribing (- 1) 7 sorter0))) = 7"
proof -
  have h: "\<forall>h w. order (resubscribing h w) = order w"
    by (simp add: resubscribing_def SortChanged_def EventPublisher_Event_def)
  from Sort_unsorted_keeps_order [OF h, of 7 sorter0] h show ?thesis
    by simp
qed

section \<open>Properties of the widgets\<close>

text \<open>What the window procedure of a button adds to the trace.\<close>

lemma Button_WndProc_trace:
  "trace (snd (Button_WndProc pf env hwnd msg wParam lParam r)) =
     (if msg = WM_COMMAND pf \<and> HIWORD pf (ucast wParam) = BN_CLICKED pf
      then trace (Publish clickedPublisher env r) else trace r)"
  by (simp add: Button_WndProc_def raiseClicked_def Let_def case_prod_beta)

text \<open>
  What the window procedure of a number edit adds to the trace: only an \<open>EN_CHANGE\<close>
  that arrives once the up-down control exists, with a value that differs from the last
  observed one, publishes.
\<close>

lemma NumberEdit_WndProc_trace:
  "trace (snd (NumberEdit_WndProc pf env hwnd msg wParam lParam r)) =
     (if hWndUpDown (world r) \<noteq> 0 \<and> msg = WM_COMMAND pf \<and> HIWORD pf (ucast wParam) = EN_CHANGE pf
         \<and> value_changes pf (world r)
      then trace (Publish valueChangedPublisher env (r\<lparr>world := (world r)\<lparr>oldValue := Value pf (world r)\<rparr>\<rparr>))
      else trace r)"
  by (simp add: NumberEdit_WndProc_def value_changes_def Let_def case_prod_beta split: option.splits)


text \<open>
  C7: one native message makes at most one \<open>Publish\<close> call. The window procedure of a
  button publishes the clicked event exactly once, to subscribers of that event in their
  order (all of them when no running handler detaches a handler), for a \<open>WM_COMMAND\<close>
  that carries \<open>BN_CLICKED\<close>, and publishes nothing for any other message; one call of
  the window procedure of a number edit publishes at most once. In both the trace only
  grows.
\<close>

theorem one_message_publishes_at_most_once:
  "trace (snd (Button_WndProc pf env hwnd msg wParam lParam r)) =
     trace r @ publications_since r (snd (Button_WndProc pf env hwnd msg wParam lParam r))
   \<and> length (publications_since r (snd (Button_WndProc pf env hwnd msg wParam lParam r))) =
       (if msg = WM_COMMAND pf \<and> HIWORD pf (ucast wParam) = BN_CLICKED pf then 1 else 0)
   \<and> (if msg = WM_COMMAND pf \<and> HIWORD pf (ucast wParam) = BN_CLICKED pf
       then subseq (invoked (snd (Button_WndProc pf env hwnd msg wParam lParam r)))
              (map Call (handlers (clickedPublisher (world r))))
          \<and> ((\<forall>g w. set (handlers (clickedPublisher w)) \<subseteq> set (handlers (clickedPublisher (env g w)))) \<longrightarrow>
               invoked (snd (Button_WndProc pf env hwnd msg wParam lParam r)) =
                 map Call (handlers (clickedPublisher (world r))))
       else trace (snd (Button_WndProc pf env hwnd msg wParam lParam r)) = trace r)
   \<and> trace (snd (NumberEdit_WndProc pf' env' hwnd' msg' wParam' lParam' n)) =
       trace n @ publications_since n (snd (NumberEdit_WndProc pf' env' hwnd' msg' wParam' lParam' n))
   \<and> length (publications_since n (snd (NumberEdit_WndProc pf' env' hwnd' msg' wParam' lParam' n))) \<le> 1"
proof -
  let ?b = "snd (Button_WndProc pf env hwnd msg wParam lParam r)"
  have b: "trace ?b = trace r @ publications_since r ?b"
    "length (publications_since r ?b) =
       (if msg = WM_COMMAND pf \<and> HIWORD pf (ucast wParam) = BN_CLICKED pf then 1 else 0)"
    by (simp_all add: publications_since_def Button_WndProc_trace trace_Publish)
  have c: "if msg = WM_COMMAND pf \<and> HIWORD pf (ucast wParam) = BN_CLICKED pf
       then subseq (invoked ?b) (map Call (handlers (clickedPublisher (world r))))
          \<and> ((\<forall>g w. set (handlers (clickedPublisher w)) \<subseteq> set (handlers (clickedPublisher (env g w)))) \<longrightarrow>
               invoked ?b = map Call (handlers (clickedPublisher (world r))))
       else trace ?b = trace r"
  proof (cases "msg = WM_COMMAND pf \<and> HIWORD pf (ucast wParam) = BN_CLICKED pf")
    case True
    then have "invoked ?b = invoked (Publish clickedPublisher env r)"
      by (simp add: invoked_def Button_WndProc_trace)
    with subseq_invoked_Publish [of clickedPublisher env r] invoked_Publish_all [of clickedPublisher env r]
    have "subseq (invoked ?b) (map Call (handlers (clickedPublisher (world r))))
          \<and> ((\<forall>g w. set (handlers (clickedPublisher w)) \<subseteq> set (handlers (clickedPublisher (env g w)))) \<longrightarrow>
               invoked ?b = map Call (handlers (clickedPublisher (world r))))"
      by simp
    then show ?thesis
      by (subst if_P [OF True])
  next
    case False
    then have "trace ?b = trace r"
      by (auto simp: Button_WndProc_trace)
    then show ?thesis
      by (subst if_not_P [OF False])
  qed
  have n: "trace (snd (NumberEdit_WndProc pf' env' hwnd' msg' wParam' lParam' n)) =
       trace n @ publications_since n (snd (NumberEdit_WndProc pf' env' hwnd' msg' wParam' lParam' n))"
    "length (publications_since n (snd (NumberEdit_WndProc pf' env' hwnd' msg' wParam' lParam' n))) \<le> 1"
    by (simp_all add: publications_since_def NumberEdit_WndProc_trace trace_Publish)
  from b c n show ?thesis
    by (intro conjI)
qed

theorem one_message_publishes_at_most_once_witness:
  "length (publications_since button0
      (snd (Button_WndProc float64_platform idle 0 (WM_COMMAND float64_platform) 0 0 button0))) = 1
   \<and> invoked (snd (Button_WndProc float64_platform idle 0 (WM_COMMAND float64_platform) 0 0 button0)) =
       [Call 1, Call 2]
   \<and> trace (snd (Button_WndProc float64_platform idle 0 (WM_SIZE float64_platform) 0 0 button0)) = []
   \<and> length (publications_since (number_edit ''1e-300'')
        (snd (NumberEdit_WndProc float64_platform idle 0 (WM_COMMAND float64_platform) 0x3000000 0
           (number_edit ''1e-300'')))) \<le> 1"
proof -
  have keep: "\<forall>g w. set (handlers (clickedPublisher w)) \<subseteq> set (handlers (clickedPublisher (idle g w :: unit Button)))"
    by (simp add: idle_def)
  have click: "WM_COMMAND float64_platform = WM_COMMAND float64_platform
      \<and> HIWORD float64_platform (ucast (0 :: uintptr)) = BN_CLICKED float64_platform"
    by (simp add: float64_platform_def)
  have other: "\<not> (WM_SIZE float64_platform = WM_COMMAND float64_platform
      \<and> HIWORD float64_platform (ucast (0 :: uintptr)) = BN_CLICKED float64_platform)"
    by (simp add: float64_platform_def)
  note a = one_message_publishes_at_most_once [of float64_platform idle 0 "WM_COMMAND float64_platform" 0 0
      button0 float64_platform idle 0 "WM_COMMAND float64_platform" "0x3000000" 0 "number_edit ''1e-300''"]
  note b = one_message_publishes_at_most_once [of float64_platform idle 0 "WM_SIZE float64_platform" 0 0
      button0 float64_platform idle 0 "WM_COMMAND float64_platform" "0x3000000" 0 "number_edit ''1e-300''"]
  from a [unfolded if_P [OF click]] keep
  have "invoked (snd (Button_WndProc float64_platform idle 0 (WM_COMMAND float64_platform) 0 0 button0)) =
      map Call (handlers (clickedPublisher (world button0)))"
    by blast
  moreover from a [unfolded if_P [OF click]]
  have "length (publications_since button0
      (snd (Button_WndProc float64_platform idle 0 (WM_COMMAND float64_platform) 0 0 button0))) = 1"
    by blast
  moreover from b [unfolded if_not_P [OF other]]
  have "trace (snd (Button_WndProc float64_platform idle 0 (WM_SIZE float64_platform) 0 0 button0)) =
      trace button0"
    by blast
  moreover from a have "length (publications_since (number_edit ''1e-300'')
        (snd (NumberEdit_WndProc float64_platform idle 0 (WM_COMMAND float64_platform) 0x3000000 0
           (number_edit ''1e-300'')))) \<le> 1"
    by blast
  ultimately show ?thesis
    by (simp add: button0_def)
qed




end
